theory Spec2Isabelle
  imports Main "HOL-Library.Word" "HOL-Library.List_Lexorder"
begin

section \<open>Common data\<close>

text \<open>
  Python's \<open>bytes\<close> is a sequence of 8-bit values. Python's exceptions are values
  of \<open>error\<close>; those raised by the source carry the head of their message, so that the
  three \<open>ValueError\<close>s of \<open>file.py\<close> stay apart.
\<close>

type_synonym bytes = "8 word list"

datatype error =
    RuntimeError string
  | ValueError string
  | TypeError
  | IndexError
  | FileNotFoundError
  | FileExistsError
  | UnicodeEncodeError
  | UnicodeDecodeError
  | RemoteFetchError
  | SizeLimitExceeded

section \<open>streaming/format/base/file.py: the phases of a shard file\<close>

subsection \<open>Disk, remote store and the record of what was done\<close>

datatype locality = DNE | REMOTE | LOCAL

datatype event =
    Download string
  | Decompress "string option"
  | Write string
  | Rename string string
  | Canonicalize string string string
  | Policy "locality list" "bool list"
  | Evict string

text \<open>
  The local directory and the remote store map a file name to its content. \<open>log\<close>
  records, in order, every download, codec call, file write, rename, policy call and
  \<open>phase.evict()\<close> call.
\<close>

record disk =
  files :: "string \<rightharpoonup> bytes"
  remote :: "string \<rightharpoonup> bytes"
  log :: "event list"

definition emit :: "event \<Rightarrow> disk \<Rightarrow> disk" where
  "emit e s = s\<lparr>log := log s @ [e]\<rparr>"

subsection \<open>ShardFilePhase and StreamConf\<close>

text \<open>
  Modelled from the spec: \<open>ShardFilePhase\<close> and \<open>StreamConf\<close>, whose files
  \<open>phase.py\<close> and \<open>stream_conf.py\<close> are not among the sources. A phase carries the
  two attributes \<open>file.py\<close> reads: \<open>size\<close> (here \<open>phase_size\<close>, \<open>None\<close> when
  unknown) and the result of \<open>get_local_filename()\<close>. A stream configuration carries
  \<open>download_max_size\<close> and the keep policy \<open>safe_keep_phases.get_phase_deletions\<close>,
  which is taken as a parameter: any function from a locality vector to a deletion vector.
\<close>

record phase =
  phase_size :: "nat option"
  local_filename :: string

record stream_conf =
  download_max_size :: "nat option"
  get_phase_deletions :: "locality list \<Rightarrow> bool list"

text \<open>
  Modelled from the spec: \<open>ShardFilePhase.probe(listing)\<close>, a membership test of the
  phase's file against a recursive directory listing, with no filesystem access.
\<close>

definition probe :: "phase \<Rightarrow> string set \<Rightarrow> bool" where
  "probe p listing = (local_filename p \<in> listing)"

text \<open>
  Modelled from the spec: \<open>ShardFilePhase.is_local()\<close>, the authoritative check that
  the phase's file exists.
\<close>

definition is_local :: "phase \<Rightarrow> disk \<Rightarrow> bool" where
  "is_local p s = (files s (local_filename p) \<noteq> None)"

text \<open>
  Modelled from the spec: \<open>ShardFilePhase.init_dir(listing)\<close> returns the size the
  phase contributes if it is present, else 0, and never downloads. Present means listed
  and on disk; the size is the one of the file on disk.
\<close>

definition phase_init_dir :: "phase \<Rightarrow> string set \<Rightarrow> disk \<Rightarrow> int" where
  "phase_init_dir p listing s =
     (if probe p listing
      then (case files s (local_filename p) of None \<Rightarrow> 0 | Some data \<Rightarrow> int (length data))
      else 0)"

text \<open>
  Modelled from the spec: \<open>ShardFilePhase.download()\<close> copies the remote object to the
  local path atomically and returns its size; it fails with a remote fetch error when the
  object is missing or its size is not the expected one.
\<close>

definition download :: "phase \<Rightarrow> disk \<Rightarrow> (error + int) \<times> disk" where
  "download p s =
     (case remote s (local_filename p) of
        None \<Rightarrow> (Inl RemoteFetchError, s)
      | Some data \<Rightarrow>
          (if phase_size p \<noteq> None \<and> phase_size p \<noteq> Some (length data)
           then (Inl RemoteFetchError, s)
           else (Inr (int (length data)),
                 emit (Download (local_filename p))
                   (s\<lparr>files := (files s)(local_filename p \<mapsto> data)\<rparr>))))"

text \<open>
  Modelled from the spec: \<open>ShardFilePhase.validate_for_download()\<close> fails with
  \<open>SizeLimitExceeded\<close> if the expected size exceeds the configured maximum.
\<close>

definition validate_for_download :: "stream_conf \<Rightarrow> phase \<Rightarrow> error + unit" where
  "validate_for_download conf p =
     (case (download_max_size conf, phase_size p) of
        (Some limit, Some n) \<Rightarrow> if limit < n then Inl SizeLimitExceeded else Inr ()
      | _ \<Rightarrow> Inr ())"

text \<open>
  Modelled from the spec: \<open>ShardFilePhase.evict()\<close> deletes the local file if present
  and returns minus its size; it is a no-op returning 0 otherwise, and never fails.
\<close>

definition phase_evict :: "phase \<Rightarrow> disk \<Rightarrow> int \<times> disk" where
  "phase_evict p s =
     (let s1 = emit (Evict (local_filename p)) s in
      case files s (local_filename p) of
        None \<Rightarrow> (0, s1)
      | Some data \<Rightarrow> (- int (length data), s1\<lparr>files := (files s1)(local_filename p := None)\<rparr>))"

subsection \<open>ShardFile\<close>

record shard_file =
  stream :: stream_conf
  zip_phase :: "phase option"
  zip_algo :: "string option"
  raw_phase :: phase
  can_algo :: "string option"
  can_phase :: "phase option"

definition phases :: "shard_file \<Rightarrow> phase option list" where
  "phases sf = [zip_phase sf, Some (raw_phase sf), can_phase sf]"

text \<open>
  \<open>validate\<close>: the \<open>break\<close> is a statement of the loop body, after the \<open>if\<close>, so the
  loop leaves after its first iteration whatever \<open>phases[0]\<close> is.
\<close>

fun validate_loop :: "stream_conf \<Rightarrow> phase option list \<Rightarrow> error + unit" where
  "validate_loop conf [] = Inr ()"
| "validate_loop conf (phase # rest) =
     (case phase of
        Some p \<Rightarrow> (case validate_for_download conf p of Inl e \<Rightarrow> Inl e | Inr u \<Rightarrow> Inr ())
      | None \<Rightarrow> Inr ())"

definition validate :: "shard_file \<Rightarrow> error + unit" where
  "validate sf =
     (if download_max_size (stream sf) \<noteq> None then validate_loop (stream sf) (phases sf)
      else Inr ())"

definition locate :: "shard_file \<Rightarrow> string set \<Rightarrow> locality list" where
  "locate sf listing =
     map (\<lambda>phase. case phase of
                    Some p \<Rightarrow> if probe p listing then LOCAL else REMOTE
                  | None \<Rightarrow> DNE) (phases sf)"

text \<open>
  \<open>evict_phases\<close>: the loop runs over \<open>zip(self.phases, phase_dels)\<close>, so over as many
  slots as the shorter of the two has. A deletion flag is a number, true when nonzero.
\<close>

fun evict_phases_loop :: "(phase option \<times> bool) list \<Rightarrow> int \<Rightarrow> disk \<Rightarrow> (error + int) \<times> disk" where
  "evict_phases_loop [] ddu s = (Inr ddu, s)"
| "evict_phases_loop ((phase, phase_del) # rest) ddu s =
     (if phase_del then
        (case phase of
           None \<Rightarrow>
             (Inl (RuntimeError ''Internal error: attempted to evict a phase that is not valid.''), s)
         | Some p \<Rightarrow> (case phase_evict p s of (d, s') \<Rightarrow> evict_phases_loop rest (ddu + d) s'))
      else evict_phases_loop rest ddu s)"

definition evict_phases :: "shard_file \<Rightarrow> bool list \<Rightarrow> disk \<Rightarrow> (error + int) \<times> disk" where
  "evict_phases sf phase_dels s = evict_phases_loop (zip (phases sf) phase_dels) 0 s"

fun evict_loop :: "phase option list \<Rightarrow> int \<Rightarrow> disk \<Rightarrow> int \<times> disk" where
  "evict_loop [] ddu s = (ddu, s)"
| "evict_loop (phase # rest) ddu s =
     (case phase of
        Some p \<Rightarrow> (case phase_evict p s of (d, s') \<Rightarrow> evict_loop rest (ddu + d) s')
      | None \<Rightarrow> evict_loop rest ddu s)"

definition evict :: "shard_file \<Rightarrow> disk \<Rightarrow> int \<times> disk" where
  "evict sf s = evict_loop (phases sf) 0 s"

text \<open>
  The policy call shared by \<open>init_dir\<close>, \<open>_unzip\<close> and \<open>_canonicalize\<close>:
  \<open>get_phase_deletions(phase_locs)\<close>, then \<open>evict_phases(phase_dels)\<close>.
\<close>

definition apply_policy :: "shard_file \<Rightarrow> locality list \<Rightarrow> disk \<Rightarrow> (error + int) \<times> disk" where
  "apply_policy sf phase_locs s =
     (let phase_dels = get_phase_deletions (stream sf) phase_locs
      in evict_phases sf phase_dels (emit (Policy phase_locs phase_dels) s))"

fun init_dir_loop ::
  "phase option list \<Rightarrow> string set \<Rightarrow> disk \<Rightarrow> int \<Rightarrow> locality list \<Rightarrow> int \<times> locality list" where
  "init_dir_loop [] listing s du phase_locs = (du, phase_locs)"
| "init_dir_loop (phase # rest) listing s du phase_locs =
     (case phase of
        Some p \<Rightarrow>
          (let phase_du = phase_init_dir p listing s in
           if phase_du \<noteq> 0 then init_dir_loop rest listing s (du + phase_du) (phase_locs @ [LOCAL])
           else init_dir_loop rest listing s du (phase_locs @ [REMOTE]))
      | None \<Rightarrow> init_dir_loop rest listing s du (phase_locs @ [DNE]))"

definition init_dir :: "shard_file \<Rightarrow> string set \<Rightarrow> disk \<Rightarrow> (error + int) \<times> disk" where
  "init_dir sf listing s =
     (case init_dir_loop (phases sf) listing s 0 [] of
        (du, phase_locs) \<Rightarrow>
          (case apply_policy sf phase_locs s of
             (Inl e, s') \<Rightarrow> (Inl e, s')
           | (Inr d, s') \<Rightarrow> (Inr (du + d), s')))"

text \<open>
  Modelled from the spec: the codecs \<open>decompress\<close> and \<open>canonicalize\<close>, whose modules
  are not among the sources, are parameters. \<open>decompress(algo, data)\<close> maps bytes to
  bytes or raises; \<open>canonicalize(algo, raw_filename, can_filename)\<close> reads the raw file
  and writes the canonical file, or raises.
\<close>

record codecs =
  decompress :: "string option \<Rightarrow> bytes \<Rightarrow> error + bytes"
  canonicalize :: "string \<Rightarrow> bytes \<Rightarrow> error + bytes"

definition unzip :: "codecs \<Rightarrow> shard_file \<Rightarrow> disk \<Rightarrow> (error + int) \<times> disk" where
  "unzip ext sf s =
     (case zip_phase sf of
        None \<Rightarrow> (Inl (RuntimeError ''Wanted to unzip a shard, but required metadata is missing.''), s)
      | Some zp \<Rightarrow>
     (case files s (local_filename zp) of
        None \<Rightarrow> (Inl FileNotFoundError, s)
      | Some zip_data \<Rightarrow>
     (case phase_size zp of
        None \<Rightarrow> (Inl TypeError, s)
      | Some zip_size \<Rightarrow>
     if length zip_data \<noteq> zip_size
     then (Inl (ValueError ''Compressed data does not match the expected size''), s)
     else
     (case decompress ext (zip_algo sf) zip_data of
        Inl e \<Rightarrow> (Inl e, s)
      | Inr raw_data \<Rightarrow>
     let s1 = emit (Decompress (zip_algo sf)) s in
     if phase_size (raw_phase sf) = None then (Inl TypeError, s1)
     else if Some (length raw_data) \<noteq> phase_size (raw_phase sf)
     then (Inl (ValueError ''Decompressed data does not match the expected size''), s1)
     else
     let raw_filename = local_filename (raw_phase sf);
         tmp_filename = raw_filename @ ''.tmp'';
         s2 = emit (Write tmp_filename) (s1\<lparr>files := (files s1)(tmp_filename \<mapsto> raw_data)\<rparr>);
         s3 = emit (Rename tmp_filename raw_filename)
                (s2\<lparr>files := ((files s2)(tmp_filename := None))(raw_filename \<mapsto> raw_data)\<rparr>);
         can_loc = (case can_phase sf of
                      Some cp \<Rightarrow> if is_local cp s3 then LOCAL else REMOTE
                    | None \<Rightarrow> DNE)
     in (case apply_policy sf [LOCAL, LOCAL, can_loc] s3 of
           (Inl e, s') \<Rightarrow> (Inl e, s')
         | (Inr d, s') \<Rightarrow> (Inr (int (length raw_data) + d), s'))))))"

text \<open>
  \<open>_canonicalize\<close> (here \<open>sf_canonicalize\<close>, the name \<open>canonicalize\<close> being the
  codec's). An algorithm that is \<open>None\<close> or the empty string is falsy.
\<close>

definition sf_canonicalize :: "codecs \<Rightarrow> shard_file \<Rightarrow> disk \<Rightarrow> (error + int) \<times> disk" where
  "sf_canonicalize ext sf s =
     (case (can_algo sf, can_phase sf) of
        (Some algo, Some cp) \<Rightarrow>
          if algo = [] then
            (Inl (RuntimeError ''Wanted to canonicalize a shard, but required metadata is missing.''), s)
          else
          (case files s (local_filename (raw_phase sf)) of
             None \<Rightarrow> (Inl FileNotFoundError, s)
           | Some raw_data \<Rightarrow>
          (case canonicalize ext algo raw_data of
             Inl e \<Rightarrow> (Inl e, s)
           | Inr can_data \<Rightarrow>
          let can_filename = local_filename cp;
              s1 = emit (Canonicalize algo (local_filename (raw_phase sf)) can_filename)
                     (s\<lparr>files := (files s)(can_filename \<mapsto> can_data)\<rparr>);
              can_size = length can_data
          in
          if phase_size cp \<noteq> None \<and> Some can_size \<noteq> phase_size cp
          then (Inl (ValueError ''Canonicalized data does not match the expected size''), s1)
          else
          let zip_loc = (case zip_phase sf of
                           Some zp \<Rightarrow> if is_local zp s1 then LOCAL else REMOTE
                         | None \<Rightarrow> DNE)
          in (case apply_policy sf [zip_loc, LOCAL, LOCAL] s1 of
                (Inl e, s') \<Rightarrow> (Inl e, s')
              | (Inr d, s') \<Rightarrow> (Inr (int can_size + d), s'))))
      | _ \<Rightarrow>
          (Inl (RuntimeError ''Wanted to canonicalize a shard, but required metadata is missing.''), s))"

text \<open>\<open>a + b\<close> on two calls that may raise: the left one runs first.\<close>

definition plus_then ::
  "(error + int) \<times> disk \<Rightarrow> (disk \<Rightarrow> (error + int) \<times> disk) \<Rightarrow> (error + int) \<times> disk" where
  "plus_then r f =
     (case r of
        (Inl e, s1) \<Rightarrow> (Inl e, s1)
      | (Inr a, s1) \<Rightarrow> (case f s1 of (Inl e, s2) \<Rightarrow> (Inl e, s2) | (Inr b, s2) \<Rightarrow> (Inr (a + b), s2)))"

definition load_raw :: "codecs \<Rightarrow> shard_file \<Rightarrow> disk \<Rightarrow> (error + int) \<times> disk" where
  "load_raw ext sf s =
     (if is_local (raw_phase sf) s then (Inr 0, s)
      else (case zip_phase sf of
              Some zp \<Rightarrow>
                if is_local zp s then unzip ext sf s
                else plus_then (download zp s) (unzip ext sf)
            | None \<Rightarrow> download (raw_phase sf) s))"

definition load :: "codecs \<Rightarrow> shard_file \<Rightarrow> disk \<Rightarrow> (error + int) \<times> disk" where
  "load ext sf s =
     (case can_phase sf of
        Some cp \<Rightarrow>
          if is_local cp s then (Inr 0, s)
          else plus_then (load_raw ext sf s) (sf_canonicalize ext sf)
      | None \<Rightarrow> load_raw ext sf s)"

section \<open>streaming/base/shared/prefix.py: the shared memory prefix\<close>

subsection \<open>Python strings and UTF-8\<close>

text \<open>
  A Python \<open>str\<close> is a sequence of code points, each below \<open>0x110000\<close>; Python
  compares two of them lexicographically by code point, which is the order of
  \<open>HOL-Library.List_Lexorder\<close> on \<open>nat list\<close>.
\<close>

type_synonym pystr = "nat list"

text \<open>
  \<open>str.encode('utf-8')\<close>, strict: one to four bytes per code point; a surrogate
  (\<open>0xD800\<close> to \<open>0xDFFF\<close>) raises \<open>UnicodeEncodeError\<close>. The bytes are numbers below
  256 here and become \<open>8 word\<close>s in \<open>utf8_encode\<close>.
\<close>

definition encode_code_point :: "nat \<Rightarrow> nat list option" where
  "encode_code_point c =
     (if c < 0x80 then Some [c]
      else if c < 0x800 then Some [0xC0 + c div 64, 0x80 + c mod 64]
      else if 0xD800 \<le> c \<and> c < 0xE000 then None
      else if c < 0x10000 then
        Some [0xE0 + c div 4096, 0x80 + c div 64 mod 64, 0x80 + c mod 64]
      else if c < 0x110000 then
        Some [0xF0 + c div 262144, 0x80 + c div 4096 mod 64, 0x80 + c div 64 mod 64,
              0x80 + c mod 64]
      else None)"

fun encode_code_points :: "pystr \<Rightarrow> nat list option" where
  "encode_code_points [] = Some []"
| "encode_code_points (c # cs) =
     (case encode_code_point c of
        None \<Rightarrow> None
      | Some bs \<Rightarrow> (case encode_code_points cs of None \<Rightarrow> None | Some rest \<Rightarrow> Some (bs @ rest)))"

definition utf8_encode :: "pystr \<Rightarrow> error + bytes" where
  "utf8_encode text =
     (case encode_code_points text of
        None \<Rightarrow> Inl UnicodeEncodeError
      | Some bs \<Rightarrow> Inr (map of_nat bs))"

text \<open>
  \<open>bytes.decode('utf-8')\<close>, strict: a lead byte says how many continuation bytes
  (\<open>0x80\<close> to \<open>0xBF\<close>) follow; overlong forms, surrogates, code points from
  \<open>0x110000\<close> on, stray continuation bytes and truncated sequences raise
  \<open>UnicodeDecodeError\<close>. \<open>decode_code_point\<close> reads one code point and returns it with
  the bytes left.
\<close>

definition is_continuation :: "nat \<Rightarrow> bool" where
  "is_continuation b = (0x80 \<le> b \<and> b < 0xC0)"

definition decode2 :: "nat \<Rightarrow> nat list \<Rightarrow> (nat \<times> nat list) option" where
  "decode2 b0 bs =
     (case bs of
        b1 # rest \<Rightarrow>
          if is_continuation b1 then Some ((b0 - 0xC0) * 64 + (b1 - 0x80), rest) else None
      | _ \<Rightarrow> None)"

definition decode3 :: "nat \<Rightarrow> nat list \<Rightarrow> (nat \<times> nat list) option" where
  "decode3 b0 bs =
     (case bs of
        b1 # b2 # rest \<Rightarrow>
          (let c = (b0 - 0xE0) * 4096 + (b1 - 0x80) * 64 + (b2 - 0x80) in
           if is_continuation b1 \<and> is_continuation b2 \<and> 0x800 \<le> c \<and>
              \<not> (0xD800 \<le> c \<and> c < 0xE000)
           then Some (c, rest) else None)
      | _ \<Rightarrow> None)"

definition decode4 :: "nat \<Rightarrow> nat list \<Rightarrow> (nat \<times> nat list) option" where
  "decode4 b0 bs =
     (case bs of
        b1 # b2 # b3 # rest \<Rightarrow>
          (let c = (b0 - 0xF0) * 262144 + (b1 - 0x80) * 4096 + (b2 - 0x80) * 64 + (b3 - 0x80) in
           if is_continuation b1 \<and> is_continuation b2 \<and> is_continuation b3 \<and>
              0x10000 \<le> c \<and> c < 0x110000
           then Some (c, rest) else None)
      | _ \<Rightarrow> None)"

definition decode_code_point :: "nat list \<Rightarrow> (nat \<times> nat list) option" where
  "decode_code_point bs =
     (case bs of
        [] \<Rightarrow> None
      | b0 # bs1 \<Rightarrow>
          if b0 < 0x80 then Some (b0, bs1)
          else if b0 < 0xC2 then None
          else if b0 < 0xE0 then decode2 b0 bs1
          else if b0 < 0xF0 then decode3 b0 bs1
          else if b0 < 0xF5 then decode4 b0 bs1
          else None)"

function decode_code_points :: "nat list \<Rightarrow> pystr option" where
  "decode_code_points bs =
     (if bs = [] then Some []
      else (case decode_code_point bs of
              None \<Rightarrow> None
            | Some (c, rest) \<Rightarrow>
                (case decode_code_points rest of None \<Rightarrow> None | Some cs \<Rightarrow> Some (c # cs))))"
  by pat_completeness auto
termination
proof (relation "measure length")
  fix bs :: "nat list" and x2 :: "nat \<times> nat list" and c :: nat and rest :: "nat list"
  assume "bs \<noteq> []" and "decode_code_point bs = Some x2" and "(c, rest) = x2"
  then have d: "decode_code_point bs = Some (c, rest)"
    by simp
  then obtain b0 bs1 where bs: "bs = b0 # bs1"
    by (cases bs) (simp_all add: decode_code_point_def)
  have "length rest \<le> length bs1"
    using d unfolding bs decode_code_point_def decode2_def decode3_def decode4_def
    by (auto simp: Let_def split: if_splits list.splits)
  then show "(rest, bs) \<in> measure length"
    by (simp add: bs)
qed simp

declare decode_code_points.simps [simp del]

definition utf8_decode :: "bytes \<Rightarrow> error + pystr" where
  "utf8_decode data =
     (case decode_code_points (map unat data) of
        None \<Rightarrow> Inl UnicodeDecodeError
      | Some text \<Rightarrow> Inr text)"

text \<open>\<open>sep.join(xs)\<close> and \<open>text.split(sep)\<close> for a separator of one code point.\<close>

fun str_join :: "'a \<Rightarrow> 'a list list \<Rightarrow> 'a list" where
  "str_join sep [] = []"
| "str_join sep [x] = x"
| "str_join sep (x # y # ys) = x @ sep # str_join sep (y # ys)"

fun str_split :: "'a \<Rightarrow> 'a list \<Rightarrow> 'a list list" where
  "str_split sep [] = [ []]"
| "str_split sep (c # cs) =
     (if c = sep then [] # str_split sep cs
      else (case str_split sep cs of
              w # ws \<Rightarrow> (c # w) # ws
            | [] \<Rightarrow> [ [c]]))"

subsection \<open>numpy's int32\<close>

text \<open>
  \<open>np.int32(size)\<close> keeps the low 32 bits of \<open>size\<close>; \<open>tobytes()\<close> gives its four
  bytes, lowest first; \<open>np.frombuffer(b, np.int32)[0]\<close> reads four bytes back as a signed
  number. It raises \<open>ValueError\<close> on one to three bytes, and the index \<open>[0]\<close> raises
  \<open>IndexError\<close> on none.
\<close>

definition int32_tobytes :: "32 word \<Rightarrow> bytes" where
  "int32_tobytes w =
     [of_nat (unat w mod 256), of_nat (unat w div 256 mod 256),
      of_nat (unat w div 65536 mod 256), of_nat (unat w div 16777216)]"

definition int32_frombuffer :: "bytes \<Rightarrow> error + 32 word" where
  "int32_frombuffer b =
     (case b of
        [] \<Rightarrow> Inl IndexError
      | [b0, b1, b2, b3] \<Rightarrow>
          Inr (of_nat (unat b0 + 256 * unat b1 + 65536 * unat b2 + 16777216 * unat b3))
      | _ \<Rightarrow> Inl (ValueError ''buffer size must be a multiple of element size''))"

text \<open>\<open>data[start:stop]\<close> for \<open>0 \<le> start\<close>; a negative \<open>stop\<close> counts from the end.\<close>

definition py_slice :: "'a list \<Rightarrow> nat \<Rightarrow> int \<Rightarrow> 'a list" where
  "py_slice data start stop =
     (let n = int (length data);
          stop' = (if stop < 0 then max (n + stop) 0 else min stop n)
      in take (nat stop' - start) (drop start data))"

subsection \<open>Packing and unpacking the local directories\<close>

text \<open>\<open>_pack_locals\<close> and \<open>_unpack_locals\<close>; the set of a Python \<open>set\<close> is finite.\<close>

definition pack_locals :: "pystr set \<Rightarrow> error + bytes" where
  "pack_locals dirnames =
     (let text = str_join 0 (sorted_list_of_set dirnames) in
      case utf8_encode text of
        Inl e \<Rightarrow> Inl e
      | Inr data \<Rightarrow>
          (let size' = 4 + length data
           in Inr (int32_tobytes (of_nat size') @ data)))"

definition unpack_locals :: "bytes \<Rightarrow> error + pystr set" where
  "unpack_locals data =
     (case int32_frombuffer (take 4 data) of
        Inl e \<Rightarrow> Inl e
      | Inr size' \<Rightarrow>
          (case utf8_decode (py_slice data 4 (sint size')) of
             Inl e \<Rightarrow> Inl e
           | Inr text \<Rightarrow> Inr (set (str_split 0 text))))"

subsection \<open>get_shm_prefix\<close>

text \<open>
  Modelled from the spec: \<open>SharedMemory\<close>, \<open>World\<close> and the process group, which are
  not among the sources. What one participant sees and does: the shared memory blocks by
  name, whether \<open>torch.distributed\<close> is available and initialized, and the record of
  the calls made: each attempt to attach, each creation, each barrier, the set-up and
  tear-down of the process group.
\<close>

datatype shm_event =
    Attach string
  | Create string
  | Barrier
  | InitProcessGroup
  | DestroyProcessGroup

record shm_state =
  shms :: "string \<rightharpoonup> bytes"
  dist_available :: bool
  dist_initialized :: bool
  calls :: "shm_event list"

record world =
  is_local_leader :: bool
  num_ranks :: nat
  rank :: nat

definition call :: "shm_event \<Rightarrow> shm_state \<Rightarrow> shm_state" where
  "call e s = s\<lparr>calls := calls s @ [e]\<rparr>"

text \<open>\<open>f'{prefix_int:06}'\<close>, for the \<open>prefix_int\<close> below \<open>10**6\<close> that the loops produce.\<close>

definition digit :: "nat \<Rightarrow> char" where
  "digit d = ''0123456789'' ! d"

definition format06 :: "nat \<Rightarrow> string" where
  "format06 n = map (\<lambda>k. digit (n div 10 ^ k mod 10)) [5, 4, 3, 2, 1, 0]"

definition shm_name :: "nat \<Rightarrow> string" where
  "shm_name prefix_int = format06 prefix_int @ ''_locals''"

text \<open>The first loop: \<open>my_locals\<close> must not repeat a directory.\<close>

fun check_my_locals :: "pystr list \<Rightarrow> pystr set \<Rightarrow> error + pystr set" where
  "check_my_locals [] my_locals_set = Inr my_locals_set"
| "check_my_locals (dirname # rest) my_locals_set =
     (if dirname \<in> my_locals_set
      then Inl (ValueError ''Reused local directory: {dirname}. Provide a different one.'')
      else check_my_locals rest (insert dirname my_locals_set))"

text \<open>
  The local leader's loop over \<open>range(10**6)\<close>, from \<open>prefix_int\<close> on: it leaves at the
  first name that cannot be attached, with \<open>prefix_int\<close> at that slot; when no attach
  fails, \<open>prefix_int\<close> ends at 999999.
\<close>

function leader_scan :: "pystr set \<Rightarrow> nat \<Rightarrow> shm_state \<Rightarrow> (error + nat) \<times> shm_state" where
  "leader_scan my_locals_set prefix_int s =
     (if prefix_int < 1000000 then
        (let s1 = call (Attach (shm_name prefix_int)) s in
         case shms s (shm_name prefix_int) of
           None \<Rightarrow> (Inr prefix_int, s1)
         | Some buf \<Rightarrow>
             (case unpack_locals buf of
                Inl e \<Rightarrow> (Inl e, s1)
              | Inr their_locals_set \<Rightarrow>
                  if my_locals_set \<inter> their_locals_set \<noteq> {}
                  then (Inl (ValueError
                    ''Reused local directory: {sorted(my_locals_set)} vs {sorted(their_locals_set)}. Provide a different one.''),
                    s1)
                  else leader_scan my_locals_set (prefix_int + 1) s1))
      else (Inr 999999, s))"
  by pat_completeness auto
termination
  by (relation "measure (\<lambda>(my_locals_set, prefix_int, s). 1000000 - prefix_int)") auto

declare leader_scan.simps [simp del]

text \<open>The leader's registration: \<open>SharedMemory(name, True, len(data))\<close> fails on a name in use.\<close>

definition leader_register ::
  "pystr set \<Rightarrow> shm_state \<Rightarrow> (error + string \<times> string) \<times> shm_state" where
  "leader_register my_locals_set s =
     (case leader_scan my_locals_set 0 s of
        (Inl e, s1) \<Rightarrow> (Inl e, s1)
      | (Inr prefix_int, s1) \<Rightarrow>
          (case pack_locals my_locals_set of
             Inl e \<Rightarrow> (Inl e, s1)
           | Inr data \<Rightarrow>
               (let name = shm_name prefix_int; s2 = call (Create name) s1 in
                if shms s2 name \<noteq> None then (Inl FileExistsError, s2)
                else (Inr (format06 prefix_int, name), s2\<lparr>shms := (shms s2)(name \<mapsto> data)\<rparr>))))"

text \<open>
  The other participants' loop: a name that cannot be attached is the internal error, an
  equal set ends the search; when neither happens below \<open>10**6\<close>, the loop ends with the
  last slot.
\<close>

function follower_scan :: "pystr set \<Rightarrow> nat \<Rightarrow> shm_state \<Rightarrow> (error + nat) \<times> shm_state" where
  "follower_scan my_locals_set prefix_int s =
     (if prefix_int < 1000000 then
        (let s1 = call (Attach (shm_name prefix_int)) s in
         case shms s (shm_name prefix_int) of
           None \<Rightarrow>
             (Inl (RuntimeError ''Internal error: shm prefix was not registered by local leader''), s1)
         | Some buf \<Rightarrow>
             (case unpack_locals buf of
                Inl e \<Rightarrow> (Inl e, s1)
              | Inr their_locals_set \<Rightarrow>
                  if my_locals_set = their_locals_set then (Inr prefix_int, s1)
                  else follower_scan my_locals_set (prefix_int + 1) s1))
      else (Inr 999999, s))"
  by pat_completeness auto
termination
  by (relation "measure (\<lambda>(my_locals_set, prefix_int, s). 1000000 - prefix_int)") auto

declare follower_scan.simps [simp del]

text \<open>The first barrier; the flag returned is \<open>destroy_dist\<close>.\<close>

definition first_barrier :: "world \<Rightarrow> shm_state \<Rightarrow> bool \<times> shm_state" where
  "first_barrier w s =
     (if 1 < num_ranks w then
        (if dist_available s \<and> \<not> dist_initialized s
         then (True, call Barrier (call InitProcessGroup (s\<lparr>dist_initialized := True\<rparr>)))
         else (False, call Barrier s))
      else (False, s))"

definition second_barrier :: "bool \<Rightarrow> shm_state \<Rightarrow> shm_state" where
  "second_barrier destroy_dist s =
     (let s1 = (if dist_available s \<and> dist_initialized s then call Barrier s else s)
      in if destroy_dist then call DestroyProcessGroup (s1\<lparr>dist_initialized := False\<rparr>) else s1)"

text \<open>
  \<open>get_shm_prefix\<close> returns the prefix and the shared memory block, named here by its
  name. A leader keeps the block it created, another participant the one it matched.
\<close>

definition get_shm_prefix ::
  "pystr list \<Rightarrow> world \<Rightarrow> shm_state \<Rightarrow> (error + string \<times> string) \<times> shm_state" where
  "get_shm_prefix my_locals w s =
     (case check_my_locals my_locals {} of
        Inl e \<Rightarrow> (Inl e, s)
      | Inr my_locals_set \<Rightarrow>
          (case (if is_local_leader w then leader_register my_locals_set s
                 else (Inr ([], []), s)) of
             (Inl e, s1) \<Rightarrow> (Inl e, s1)
           | (Inr registered, s1) \<Rightarrow>
               (case first_barrier w s1 of
                  (destroy_dist, s2) \<Rightarrow>
                    (if \<not> is_local_leader w then
                       (case follower_scan my_locals_set 0 s2 of
                          (Inl e, s3) \<Rightarrow> (Inl e, s3)
                        | (Inr prefix_int, s3) \<Rightarrow>
                            (Inr (format06 prefix_int, shm_name prefix_int),
                             second_barrier destroy_dist s3))
                     else (Inr registered, second_barrier destroy_dist s2)))))"

section \<open>streaming/format/base/writer/dual_row.py: flushing a dual shard\<close>

text \<open>
  Modelled from the spec: \<open>RowWriter\<close>, which is not among the sources. Its methods
  that \<open>flush_shard\<close> calls to name, encode and write files are parameters
  (\<open>encode_dual_shard\<close> is abstract in the source too); its state is the cancellation
  flag \<open>event\<close>, the shard descriptors \<open>shards\<close>, the buffered samples, and the
  executor: the upload jobs submitted and not yet started, and those running. \<open>trace\<close>
  records each encoding, submission, cancellation, start and end of an upload.
\<close>

record file_info =
  basename :: string
  nbytes :: nat

text \<open>The shard descriptor \<open>obj\<close>: a field \<open>obj_k\<close> for the key \<open>k\<close> of the dictionary.\<close>

record shard_obj =
  obj_samples :: nat
  obj_raw_data :: file_info
  obj_zip_data :: "file_info option"
  obj_raw_meta :: file_info
  obj_zip_meta :: "file_info option"
  obj_config :: "(string \<times> string) list"

datatype writer_event =
    Encoded
  | Submitted string
  | Cancelled string
  | Started string
  | Succeeded string
  | Failed string

record writer =
  event :: bool
  shards :: "shard_obj list"
  new_samples :: "bytes list"
  pending :: "string list"
  running :: "string list"
  trace :: "writer_event list"

record row_writer =
  name_next_shard :: "nat \<Rightarrow> string option \<Rightarrow> string \<times> string option"
  encode_dual_shard :: "bytes list \<Rightarrow> bytes \<times> bytes"
  process_file :: "bytes \<Rightarrow> string \<Rightarrow> string option \<Rightarrow> file_info \<times> file_info option"
  get_config :: "(string \<times> string) list"

text \<open>
  Modelled from the spec: \<open>cancel_future_jobs\<close> cancels the uploads that have not started;
  those in flight run on.
\<close>

definition cancel_future_jobs :: "writer \<Rightarrow> writer" where
  "cancel_future_jobs w = w\<lparr>pending := [], trace := trace w @ map Cancelled (pending w)\<rparr>"

text \<open>\<open>self.executor.submit(self.cloud_writer.upload_file, name)\<close>: the job is queued.\<close>

definition submit :: "string \<Rightarrow> writer \<Rightarrow> writer" where
  "submit name w = w\<lparr>pending := pending w @ [name], trace := trace w @ [Submitted name]\<rparr>"

text \<open>\<open>a or b\<close> on an optional string: \<open>None\<close> and the empty string are falsy.\<close>

definition or_else :: "string option \<Rightarrow> string \<Rightarrow> string" where
  "or_else a b = (case a of None \<Rightarrow> b | Some x \<Rightarrow> if x = [] then b else x)"

definition flush_shard :: "row_writer \<Rightarrow> writer \<Rightarrow> writer" where
  "flush_shard h w =
     (if event w then cancel_future_jobs w
      else
        (case name_next_shard h (length (shards w)) None of (raw_data_basename, zip_data_basename) \<Rightarrow>
         case name_next_shard h (length (shards w)) (Some ''meta'') of
           (raw_meta_basename, zip_meta_basename) \<Rightarrow>
         case encode_dual_shard h (new_samples w) of (raw_data', raw_meta') \<Rightarrow>
         case process_file h raw_data' raw_data_basename zip_data_basename of
           (raw_data_info, zip_data_info) \<Rightarrow>
         case process_file h raw_meta' raw_meta_basename zip_meta_basename of
           (raw_meta_info, zip_meta_info) \<Rightarrow>
         let obj = \<lparr>obj_samples = length (new_samples w), obj_raw_data = raw_data_info,
                    obj_zip_data = zip_data_info, obj_raw_meta = raw_meta_info,
                    obj_zip_meta = zip_meta_info, obj_config = get_config h\<rparr>;
             w1 = w\<lparr>shards := shards w @ [obj], trace := trace w @ [Encoded]\<rparr>;
             w2 = submit (or_else zip_data_basename raw_data_basename) w1
         in submit (or_else zip_meta_basename raw_meta_basename) w2))"

text \<open>
  Lines 83 to 98 of \<open>flush_shard\<close> alone: the shard is named, encoded and written, and
  its descriptor appended. The result carries the names of the two files that lines 101
  to 108 submit (\<open>zip_data_basename or raw_data_basename\<close>, and likewise for the meta
  file).
\<close>

definition flush_encode :: "row_writer \<Rightarrow> writer \<Rightarrow> string \<times> string \<times> writer" where
  "flush_encode h w =
     (case name_next_shard h (length (shards w)) None of (raw_data_basename, zip_data_basename) \<Rightarrow>
      case name_next_shard h (length (shards w)) (Some ''meta'') of
        (raw_meta_basename, zip_meta_basename) \<Rightarrow>
      case encode_dual_shard h (new_samples w) of (raw_data', raw_meta') \<Rightarrow>
      case process_file h raw_data' raw_data_basename zip_data_basename of
        (raw_data_info, zip_data_info) \<Rightarrow>
      case process_file h raw_meta' raw_meta_basename zip_meta_basename of
        (raw_meta_info, zip_meta_info) \<Rightarrow>
      let obj = \<lparr>obj_samples = length (new_samples w), obj_raw_data = raw_data_info,
                 obj_zip_data = zip_data_info, obj_raw_meta = raw_meta_info,
                 obj_zip_meta = zip_meta_info, obj_config = get_config h\<rparr>
      in (or_else zip_data_basename raw_data_basename,
          or_else zip_meta_basename raw_meta_basename,
          w\<lparr>shards := shards w @ [obj], trace := trace w @ [Encoded]\<rparr>))"

text \<open>
  Modelled from the spec: the executor and the done-callback. A worker starts the oldest
  pending upload; an upload in flight ends; any upload failure sets the shared
  cancellation flag.
\<close>

definition start :: "writer \<Rightarrow> writer" where
  "start w =
     (case pending w of
        [] \<Rightarrow> w
      | name # rest \<Rightarrow>
          w\<lparr>pending := rest, running := running w @ [name], trace := trace w @ [Started name]\<rparr>)"

definition finish :: "string \<Rightarrow> bool \<Rightarrow> writer \<Rightarrow> writer" where
  "finish name ok w =
     (if name \<in> set (running w) then
        (if ok then w\<lparr>running := remove1 name (running w), trace := trace w @ [Succeeded name]\<rparr>
         else w\<lparr>running := remove1 name (running w), trace := trace w @ [Failed name],
                event := True\<rparr>)
      else w)"

text \<open>
  The uploads run on worker threads while the main thread is inside \<open>flush_shard\<close>, so
  a call of \<open>flush_shard\<close> is not one step: the flag is read once, at line 77, and the
  done-callback of an upload may set it at any later point of the call. The main thread
  is outside \<open>flush_shard\<close>; or past a flag check (line 77) that found the flag unset; or
  past line 98, with the names of the two files to upload; or past the first submit
  (line 103), with the name of the meta file. Lines 83 to 98 read and write only what
  the main thread owns (the buffered samples, the shard list, the local files), neither
  the flag nor the executor, so they are one step.
\<close>

datatype flush_pc = Outside | Checked | Appended string string | Data_submitted string

fun main_step :: "row_writer \<Rightarrow> flush_pc \<times> writer \<Rightarrow> flush_pc \<times> writer" where
  "main_step h (Outside, w) =
     (if event w then (Outside, cancel_future_jobs w) else (Checked, w))"
| "main_step h (Checked, w) =
     (case flush_encode h w of
        (data_name, meta_name, w') \<Rightarrow> (Appended data_name meta_name, w'))"
| "main_step h (Appended data_name meta_name, w) = (Data_submitted meta_name, submit data_name w)"
| "main_step h (Data_submitted meta_name, w) = (Outside, submit meta_name w)"

text \<open>
  One run of the writer is an interleaving of the steps of the main thread, which calls
  \<open>flush_shard\<close> again and again, with uploads starting and ending.
\<close>

datatype action = Main_thread | Start | Finish string bool

fun step :: "row_writer \<Rightarrow> action \<Rightarrow> flush_pc \<times> writer \<Rightarrow> flush_pc \<times> writer" where
  "step h Main_thread (pc, w) = main_step h (pc, w)"
| "step h Start (pc, w) = (pc, start w)"
| "step h (Finish name ok) (pc, w) = (pc, finish name ok w)"

definition run :: "row_writer \<Rightarrow> action list \<Rightarrow> flush_pc \<times> writer \<Rightarrow> flush_pc \<times> writer" where
  "run h actions c = fold (step h) actions c"

section \<open>Notions used to state the properties\<close>

definition file_size :: "disk \<Rightarrow> string \<Rightarrow> nat" where
  "file_size s f = (case files s f of None \<Rightarrow> 0 | Some data \<Rightarrow> length data)"

text \<open>The configured phases a deletion vector flags, in slot order.\<close>

definition flagged_of :: "(phase option \<times> bool) list \<Rightarrow> phase list" where
  "flagged_of pds = List.map_filter (\<lambda>(phase, phase_del). if phase_del then phase else None) pds"

definition flagged :: "shard_file \<Rightarrow> bool list \<Rightarrow> phase list" where
  "flagged sf phase_dels = flagged_of (zip (phases sf) phase_dels)"

text \<open>The last configured phase: canonical if configured, else raw.\<close>

definition terminal_phase :: "shard_file \<Rightarrow> phase" where
  "terminal_phase sf = (case can_phase sf of Some cp \<Rightarrow> cp | None \<Rightarrow> raw_phase sf)"

text \<open>
  The locality vectors a shard file can have: three slots, \<open>DNE\<close> exactly in the slots
  of the phases that are not configured.
\<close>

definition localities_of :: "shard_file \<Rightarrow> locality list list" where
  "localities_of sf =
     filter (list_all2 (\<lambda>phase loc. (phase = None) = (loc = DNE)) (phases sf))
       (List.n_lists 3 [DNE, REMOTE, LOCAL])"

text \<open>
  A keep policy that, whatever the localities of the file, flags no phase stored under the
  file name of the terminal phase.
\<close>

definition keeps_terminal :: "shard_file \<Rightarrow> bool" where
  "keeps_terminal sf =
     (\<forall>phase_locs \<in> set (localities_of sf).
        local_filename (terminal_phase sf) \<notin>
          local_filename ` set (flagged sf (get_phase_deletions (stream sf) phase_locs)))"

text \<open>What a slot contributes to the usage that \<open>init_dir\<close> collects.\<close>

definition slot_du :: "phase option \<Rightarrow> string set \<Rightarrow> disk \<Rightarrow> int" where
  "slot_du phase listing s = (case phase of Some p \<Rightarrow> phase_init_dir p listing s | None \<Rightarrow> 0)"

text \<open>A keep policy that flags only slots whose locality is \<open>LOCAL\<close>.\<close>

definition flags_only_local :: "shard_file \<Rightarrow> bool" where
  "flags_only_local sf =
     (\<forall>phase_locs \<in> set (localities_of sf).
        \<forall>(loc, phase_del) \<in> set (zip phase_locs (get_phase_deletions (stream sf) phase_locs)).
          phase_del \<longrightarrow> loc = LOCAL)"

text \<open>
  The events that complete a phase transition: a download, the rename that publishes the
  decompressed raw file, the canonicalizer's run. \<open>with_download\<close> says whether downloads
  count.
\<close>

fun is_transition :: "bool \<Rightarrow> event \<Rightarrow> bool" where
  "is_transition with_download (Download f) = with_download"
| "is_transition with_download (Rename f g) = True"
| "is_transition with_download (Canonicalize algo f g) = True"
| "is_transition with_download e = False"

definition evictions :: "shard_file \<Rightarrow> bool list \<Rightarrow> event list" where
  "evictions sf phase_dels = map (\<lambda>p. Evict (local_filename p)) (flagged sf phase_dels)"

text \<open>The files present in the local directory after an event, from those present before.\<close>

fun present_after :: "event \<Rightarrow> string set \<Rightarrow> string set" where
  "present_after (Download f) present = insert f present"
| "present_after (Write f) present = insert f present"
| "present_after (Rename f g) present = insert g (present - {f})"
| "present_after (Canonicalize algo f g) present = insert g present"
| "present_after (Evict f) present = present - {f}"
| "present_after e present = present"

text \<open>
  The locality of the three phases of a file, given the files present: \<open>DNE\<close> for a
  phase that is not configured, \<open>LOCAL\<close> or \<open>REMOTE\<close> as its file is present or not.
\<close>

definition true_localities :: "shard_file \<Rightarrow> string set \<Rightarrow> locality list" where
  "true_localities sf present =
     map (\<lambda>phase. case phase of
                    Some p \<Rightarrow> if local_filename p \<in> present then LOCAL else REMOTE
                  | None \<Rightarrow> DNE) (phases sf)"

text \<open>
  The vector handed to the keep policy after a transition. \<open>exact\<close>: the locality of all
  three phases. Otherwise the same, except that after the rename of a decompression the slot
  of the compressed phase is \<open>LOCAL\<close>, probed or not.
\<close>

definition handed_over :: "bool \<Rightarrow> shard_file \<Rightarrow> string set \<Rightarrow> event \<Rightarrow> locality list" where
  "handed_over exact sf present e =
     (if exact then true_localities sf present
      else (case e of
              Rename f g \<Rightarrow> (true_localities sf present)[0 := LOCAL]
            | _ \<Rightarrow> true_localities sf present))"

text \<open>Whether a log starts with an \<open>evict()\<close> call.\<close>

fun starts_with_evict :: "event list \<Rightarrow> bool" where
  "starts_with_evict (Evict f # es) = True"
| "starts_with_evict es = False"

text \<open>
  On a log, starting from the files present: every transition is followed at once by a call
  of the keep policy on the locality of the three phases as the files are then, and then by
  the \<open>evict()\<close> calls of exactly the phases that the policy flagged, and no other.
\<close>

fun policy_after :: "bool \<Rightarrow> bool \<Rightarrow> shard_file \<Rightarrow> string set \<Rightarrow> event list \<Rightarrow> bool" where
  "policy_after with_download exact sf present [] = True"
| "policy_after with_download exact sf present (e # es) =
     ((if is_transition with_download e then
         (case es of
            Policy phase_locs phase_dels # es' \<Rightarrow>
              phase_locs = handed_over exact sf (present_after e present) e \<and>
              phase_dels = get_phase_deletions (stream sf) phase_locs \<and>
              take (length (evictions sf phase_dels)) es' = evictions sf phase_dels \<and>
              \<not> starts_with_evict (drop (length (evictions sf phase_dels)) es')
          | _ \<Rightarrow> False)
       else True)
      \<and> policy_after with_download exact sf (present_after e present) es)"

text \<open>
  The compressed file is not stored under the name of the temporary file of the raw phase
  (which \<open>_unzip\<close> writes and renames).
\<close>

definition no_tmp_clash :: "shard_file \<Rightarrow> bool" where
  "no_tmp_clash sf =
     (case zip_phase sf of
        None \<Rightarrow> True
      | Some zp \<Rightarrow> local_filename zp \<noteq> local_filename (raw_phase sf) @ ''.tmp'')"

text \<open>The names a participant tried to attach, in order.\<close>

definition attached :: "shm_event list \<Rightarrow> string list" where
  "attached evs = List.map_filter (\<lambda>e. case e of Attach name \<Rightarrow> Some name | _ \<Rightarrow> None) evs"

text \<open>A Unicode scalar value: a code point that is not a surrogate.\<close>

definition is_scalar :: "nat \<Rightarrow> bool" where
  "is_scalar c = (c < 0xD800 \<or> 0xE000 \<le> c \<and> c < 0x110000)"

text \<open>
  New work: a shard encoded, an upload submitted to the executor, or an upload started
  by a worker.
\<close>

fun is_new_work :: "writer_event \<Rightarrow> bool" where
  "is_new_work Encoded = True"
| "is_new_work (Submitted name) = True"
| "is_new_work (Started name) = True"
| "is_new_work e = False"

text \<open>On a trace: no new work after an upload has failed.\<close>

fun quiet_after_failure :: "writer_event list \<Rightarrow> bool" where
  "quiet_after_failure [] = True"
| "quiet_after_failure (Failed name # es) = list_all (\<lambda>e. \<not> is_new_work e) es"
| "quiet_after_failure (e # es) = quiet_after_failure es"

text \<open>The shards encoded, the uploads submitted and the uploads started, counted on a trace.\<close>

fun is_submitted :: "writer_event \<Rightarrow> bool" where
  "is_submitted (Submitted name) = True"
| "is_submitted e = False"

fun is_started :: "writer_event \<Rightarrow> bool" where
  "is_started (Started name) = True"
| "is_started e = False"

definition encodings :: "writer_event list \<Rightarrow> nat" where
  "encodings es = length (filter (\<lambda>e. e = Encoded) es)"

definition submissions :: "writer_event list \<Rightarrow> nat" where
  "submissions es = length (filter is_submitted es)"

definition starts :: "writer_event list \<Rightarrow> nat" where
  "starts es = length (filter is_started es)"

text \<open>
  What the call of \<open>flush_shard\<close> in progress has still to do: the shards to encode and
  the uploads to submit before it returns.
\<close>

fun encodings_left :: "flush_pc \<Rightarrow> nat" where
  "encodings_left Checked = 1"
| "encodings_left pc = 0"

fun submits_left :: "flush_pc \<Rightarrow> nat" where
  "submits_left Outside = 0"
| "submits_left Checked = 2"
| "submits_left (Appended data_name meta_name) = 2"
| "submits_left (Data_submitted meta_name) = 1"

section \<open>Example values\<close>

text \<open>
  A keep policy in the shape of the spec's example "canonical only": once the canonical
  phase is local, the local phases before it are deleted; nothing is deleted otherwise.
\<close>

fun keep_can_only :: "locality list \<Rightarrow> bool list" where
  "keep_can_only [z, r, c] =
     (if c = LOCAL then [z = LOCAL, r = LOCAL, False] else [False, False, False])"
| "keep_can_only phase_locs = map (\<lambda>_. False) phase_locs"

definition ex_stream :: stream_conf where
  "ex_stream = \<lparr>download_max_size = Some 10, get_phase_deletions = keep_can_only\<rparr>"

definition ex_zip :: phase where
  "ex_zip = \<lparr>phase_size = Some 2, local_filename = ''shard.00000.mds.zstd''\<rparr>"

definition ex_raw :: phase where
  "ex_raw = \<lparr>phase_size = Some 3, local_filename = ''shard.00000.mds''\<rparr>"

definition ex_big_raw :: phase where
  "ex_big_raw = \<lparr>phase_size = Some 100, local_filename = ''shard.00000.mds''\<rparr>"

definition ex_raw_file :: shard_file where
  "ex_raw_file = \<lparr>stream = ex_stream, zip_phase = None, zip_algo = None,
     raw_phase = ex_raw, can_algo = None, can_phase = None\<rparr>"

definition ex_big_raw_file :: shard_file where
  "ex_big_raw_file = \<lparr>stream = ex_stream, zip_phase = None, zip_algo = None,
     raw_phase = ex_big_raw, can_algo = None, can_phase = None\<rparr>"

definition ex_zip_file :: shard_file where
  "ex_zip_file = \<lparr>stream = ex_stream, zip_phase = Some ex_zip, zip_algo = Some ''zstd'',
     raw_phase = ex_raw, can_algo = None, can_phase = None\<rparr>"

definition ex_can :: phase where
  "ex_can = \<lparr>phase_size = Some 3, local_filename = ''shard.00000.can''\<rparr>"

definition ex_full_file :: shard_file where
  "ex_full_file = \<lparr>stream = ex_stream, zip_phase = Some ex_zip, zip_algo = Some ''zstd'',
     raw_phase = ex_raw, can_algo = Some ''canon'', can_phase = Some ex_can\<rparr>"

definition ex_disk :: disk where
  "ex_disk = \<lparr>files = [''shard.00000.mds'' \<mapsto> [1, 2, 3]], remote = Map.empty, log = []\<rparr>"

definition ex_codecs :: codecs where
  "ex_codecs = \<lparr>decompress = (\<lambda>algo data. Inr (data @ [3])),
                canonicalize = (\<lambda>algo data. Inr (rev data))\<rparr>"

definition ex_zip_disk :: disk where
  "ex_zip_disk = \<lparr>files = [''shard.00000.mds.zstd'' \<mapsto> [1, 2]], remote = Map.empty, log = []\<rparr>"

definition ex_zip_disk_loaded :: disk where
  "ex_zip_disk_loaded =
     \<lparr>files = [''shard.00000.mds.zstd'' \<mapsto> [1, 2], ''shard.00000.mds'' \<mapsto> [1, 2, 3]],
      remote = Map.empty,
      log = [Decompress (Some ''zstd''), Write ''shard.00000.mds.tmp'',
             Rename ''shard.00000.mds.tmp'' ''shard.00000.mds'',
             Policy [LOCAL, LOCAL, DNE] [False, False, False]]\<rparr>"

definition ex_bad_zip_disk :: disk where
  "ex_bad_zip_disk =
     \<lparr>files = [''shard.00000.mds.zstd'' \<mapsto> [1, 2, 3]], remote = Map.empty, log = []\<rparr>"

definition ex_empty_raw_disk :: disk where
  "ex_empty_raw_disk = \<lparr>files = [''shard.00000.mds'' \<mapsto> []], remote = Map.empty, log = []\<rparr>"

definition ex_remote_disk :: disk where
  "ex_remote_disk = \<lparr>files = Map.empty, remote = [''shard.00000.mds'' \<mapsto> [1, 2, 3]], log = []\<rparr>"

definition ex_remote_zip_disk :: disk where
  "ex_remote_zip_disk =
     \<lparr>files = Map.empty, remote = [''shard.00000.mds.zstd'' \<mapsto> [1, 2]], log = []\<rparr>"

text \<open>A shard file whose compressed phase is stored under the raw file's \<open>.tmp\<close> name.\<close>

definition ex_tmp_zip :: phase where
  "ex_tmp_zip = \<lparr>phase_size = Some 2, local_filename = ''shard.00000.mds.tmp''\<rparr>"

definition ex_tmp_file :: shard_file where
  "ex_tmp_file = \<lparr>stream = ex_stream, zip_phase = Some ex_tmp_zip, zip_algo = Some ''zstd'',
     raw_phase = ex_raw, can_algo = None, can_phase = None\<rparr>"

definition ex_tmp_disk :: disk where
  "ex_tmp_disk = \<lparr>files = [''shard.00000.mds.tmp'' \<mapsto> [1, 2]], remote = Map.empty, log = []\<rparr>"

definition ex_registry :: shm_state where
  "ex_registry =
     \<lparr>shms = [''000000_locals'' \<mapsto> [6, 0, 0, 0, 47, 97], ''000001_locals'' \<mapsto> [6, 0, 0, 0, 47, 98]],
      dist_available = True, dist_initialized = False, calls = []\<rparr>"

definition ex_shm_state :: shm_state where
  "ex_shm_state = \<lparr>shms = Map.empty, dist_available = True, dist_initialized = False, calls = []\<rparr>"

definition ex_leader :: world where
  "ex_leader = \<lparr>is_local_leader = True, num_ranks = 2, rank = 0\<rparr>"

definition ex_follower :: world where
  "ex_follower = \<lparr>is_local_leader = False, num_ranks = 2, rank = 1\<rparr>"

definition ex_row_writer :: row_writer where
  "ex_row_writer =
     \<lparr>name_next_shard = (\<lambda>n extension.
         (''shard.'' @ (if n = 0 then ''00000'' else ''00001'') @ ''.json'' @
            (case extension of None \<Rightarrow> [] | Some ext \<Rightarrow> ''.'' @ ext), None)),
      encode_dual_shard = (\<lambda>new_samples. (concat new_samples, [of_nat (length new_samples)])),
      process_file = (\<lambda>data raw_basename zip_basename.
         (\<lparr>basename = raw_basename, nbytes = length data\<rparr>, None)),
      get_config = []\<rparr>"

definition ex_writer :: writer where
  "ex_writer = \<lparr>event = False, shards = [], new_samples = [ [1, 2]], pending = [], running = [],
     trace = []\<rparr>"

text \<open>
  The writer after its first flush, the data upload started and failed, the meta upload
  still queued.
\<close>

definition ex_failed_writer :: writer where
  "ex_failed_writer =
     snd (run ex_row_writer
            [Main_thread, Main_thread, Main_thread, Main_thread, Start,
             Finish ''shard.00000.json'' False]
            (Outside, ex_writer))"

section \<open>Properties of file.py\<close>

subsection \<open>Eviction of phases\<close>

lemma flagged_of_simps [simp]:
  "flagged_of [] = []"
  "flagged_of ((Some p, True) # pds) = p # flagged_of pds"
  "flagged_of ((ph, False) # pds) = flagged_of pds"
  "flagged_of ((None, d) # pds) = flagged_of pds"
  by (simp_all add: flagged_of_def List.map_filter_simps)

lemma phase_evict_eq:
  "phase_evict p s =
     (- int (file_size s (local_filename p)),
      s\<lparr>files := (files s)(local_filename p := None), log := log s @ [Evict (local_filename p)]\<rparr>)"
  by (cases "files s (local_filename p)") (simp_all add: phase_evict_def file_size_def emit_def Let_def fun_upd_idem)

lemma evict_phases_loop_ok:
  "(None, True) \<notin> set pds \<Longrightarrow>
   evict_phases_loop pds ddu s =
     (Inr (ddu - int (\<Sum>f \<in> local_filename ` set (flagged_of pds). file_size s f)),
      s\<lparr>files := files s |` (- local_filename ` set (flagged_of pds)),
        log := log s @ map (\<lambda>p. Evict (local_filename p)) (flagged_of pds)\<rparr>)"
proof (induction pds arbitrary: ddu s)
  case Nil
  then show ?case by simp
next
  case (Cons a pds)
  obtain ph d where a: "a = (ph, d)" by (cases a)
  show ?case
  proof (cases d)
    case False
    with Cons a show ?thesis by simp
  next
    case True
    with Cons.prems a obtain p where ph: "ph = Some p" by (cases ph) auto
    let ?f = "local_filename p"
    let ?F = "local_filename ` set (flagged_of pds)"
    let ?s1 = "s\<lparr>files := (files s)(?f := None), log := log s @ [Evict ?f]\<rparr>"
    have notin: "(None, True) \<notin> set pds" using Cons.prems by simp
    have fs: "\<And>g. file_size ?s1 g = (if g = ?f then 0 else file_size s g)"
      by (simp add: file_size_def)
    have sum1: "(\<Sum>g\<in>?F. file_size ?s1 g) = (\<Sum>g\<in>?F - {?f}. file_size s g)"
    proof -
      have "(\<Sum>g\<in>?F. file_size ?s1 g) = (\<Sum>g\<in>?F. if g = ?f then 0 else file_size s g)"
        by (simp add: fs)
      also have "\<dots> = (\<Sum>g\<in>?F - {?f}. file_size s g)"
        by (rule sum.mono_neutral_cong_right) auto
      finally show ?thesis .
    qed
    have sum2: "(\<Sum>g\<in>insert ?f ?F. file_size s g) = file_size s ?f + (\<Sum>g\<in>?F - {?f}. file_size s g)"
      by (simp add: sum.insert_remove)
    have restr: "(files s)(?f := None) |` (- ?F) = files s |` (- insert ?f ?F)"
      by (auto simp: restrict_map_def fun_eq_iff)
    have step: "evict_phases_loop (a # pds) ddu s =
        evict_phases_loop pds (ddu - int (file_size s ?f)) ?s1"
      by (simp add: a True ph phase_evict_eq)
    have fl: "flagged_of (a # pds) = p # flagged_of pds"
      by (simp add: a True ph)
    have files1: "files ?s1 |` (- ?F) = files s |` (- insert ?f ?F)"
      by (auto simp: restrict_map_def fun_eq_iff)
    have st: "?s1\<lparr>files := files ?s1 |` (- ?F),
                 log := log ?s1 @ map (\<lambda>p. Evict (local_filename p)) (flagged_of pds)\<rparr> =
              s\<lparr>files := files s |` (- insert ?f ?F),
                log := log s @ map (\<lambda>p. Evict (local_filename p)) (p # flagged_of pds)\<rparr>"
      by (subst files1) simp
    have val: "ddu - int (file_size s ?f) - int (\<Sum>g\<in>?F. file_size ?s1 g) =
               ddu - int (\<Sum>g\<in>insert ?f ?F. file_size s g)"
      by (simp only: sum1 sum2)
    show ?thesis
      by (simp only: step fl Cons.IH [OF notin] st val list.set image_insert)
  qed
qed

lemma evict_phases_loop_bad:
  "(None, True) \<in> set pds \<Longrightarrow>
   \<exists>s'. evict_phases_loop pds ddu s =
     (Inl (RuntimeError ''Internal error: attempted to evict a phase that is not valid.''), s')"
proof (induction pds arbitrary: ddu s)
  case Nil
  then show ?case by simp
next
  case (Cons a pds)
  obtain ph d where a: "a = (ph, d)" by (cases a)
  show ?case
  proof (cases "a = (None, True)")
    case True
    then show ?thesis by simp
  next
    case False
    with Cons.prems have "(None, True) \<in> set pds" by simp
    from Cons.IH [OF this] False a show ?thesis
      by (cases ph; cases d) (auto simp: phase_evict_eq)
  qed
qed

subsection \<open>Validation\<close>

lemma validate_fails_iff:
  "validate sf = Inl e \<longleftrightarrow>
     e = SizeLimitExceeded \<and>
     (\<exists>limit zp n. download_max_size (stream sf) = Some limit \<and> zip_phase sf = Some zp \<and>
        phase_size zp = Some n \<and> limit < n)"
  by (auto simp: validate_def phases_def validate_for_download_def
           split: option.splits sum.splits if_splits)

text \<open>
  Claim C5. With a maximum download size configured, \<open>validate()\<close> should fail with
  \<open>SizeLimitExceeded\<close> exactly when the expected size of the first configured phase
  (compressed if configured, else raw) exceeds it. The loop of \<open>validate\<close> leaves after
  \<open>phases[0]\<close>, configured or not (\<open>validate_fails_iff\<close>), so a file without a
  compressed phase is never checked: here the raw phase is the first configured one, its
  expected size 100 exceeds the maximum 10, and \<open>validate()\<close> passes.
\<close>

theorem validate_skips_raw_first_phase: "validate ex_big_raw_file = Inr ()"
  by (simp add: validate_def ex_big_raw_file_def phases_def)

text \<open>
  Claim C6. For every deletion vector: if a flagged slot holds no configured phase,
  \<open>evict_phases\<close> fails with the internal error; otherwise it succeeds, the files left
  are those of before minus the files of the flagged phases, \<open>evict()\<close> was called on
  exactly the flagged phases, in slot order, and the value returned is minus the bytes of
  the files deleted, so never positive.
\<close>

theorem evict_phases_spec:
  "((None, True) \<in> set (zip (phases sf) phase_dels) \<longrightarrow>
      fst (evict_phases sf phase_dels s) =
        Inl (RuntimeError ''Internal error: attempted to evict a phase that is not valid.''))
   \<and> ((None, True) \<notin> set (zip (phases sf) phase_dels) \<longrightarrow>
      evict_phases sf phase_dels s =
        (Inr (- int (\<Sum>f \<in> local_filename ` set (flagged sf phase_dels). file_size s f)),
         s\<lparr>files := files s |` (- local_filename ` set (flagged sf phase_dels)),
           log := log s @ map (\<lambda>p. Evict (local_filename p)) (flagged sf phase_dels)\<rparr>))"
proof (intro conjI impI)
  assume "(None, True) \<in> set (zip (phases sf) phase_dels)"
  from evict_phases_loop_bad [OF this, of 0 s]
  show "fst (evict_phases sf phase_dels s) =
        Inl (RuntimeError ''Internal error: attempted to evict a phase that is not valid.'')"
    by (auto simp: evict_phases_def)
next
  assume "(None, True) \<notin> set (zip (phases sf) phase_dels)"
  from evict_phases_loop_ok [OF this, of 0 s]
  show "evict_phases sf phase_dels s =
        (Inr (- int (\<Sum>f \<in> local_filename ` set (flagged sf phase_dels). file_size s f)),
         s\<lparr>files := files s |` (- local_filename ` set (flagged sf phase_dels)),
           log := log s @ map (\<lambda>p. Evict (local_filename p)) (flagged sf phase_dels)\<rparr>)"
    by (simp add: evict_phases_def flagged_def)
qed

theorem evict_phases_spec_witness:
  "fst (evict_phases ex_raw_file [True, False, False] ex_disk) =
     Inl (RuntimeError ''Internal error: attempted to evict a phase that is not valid.'')
   \<and> evict_phases ex_raw_file [False, True, False] ex_disk =
       (Inr (- 3), \<lparr>files = Map.empty, remote = Map.empty, log = [Evict ''shard.00000.mds'']\<rparr>)"
proof -
  have bad: "(None, True) \<in> set (zip (phases ex_raw_file) [True, False, False])"
    by (simp add: phases_def ex_raw_file_def)
  have ok: "(None, True) \<notin> set (zip (phases ex_raw_file) [False, True, False])"
    by (simp add: phases_def ex_raw_file_def)
  have fl: "flagged ex_raw_file [False, True, False] = [ex_raw]"
    by (simp add: flagged_def phases_def ex_raw_file_def)
  have r: "[''shard.00000.mds'' \<mapsto> [1, 2, 3 :: 8 word]] |` (- {''shard.00000.mds''}) = Map.empty"
    by (auto simp: restrict_map_def fun_eq_iff)
  from evict_phases_spec [of ex_raw_file "[True, False, False]" ex_disk] bad
  have 1: "fst (evict_phases ex_raw_file [True, False, False] ex_disk) =
     Inl (RuntimeError ''Internal error: attempted to evict a phase that is not valid.'')"
    by blast
  from evict_phases_spec [of ex_raw_file "[False, True, False]" ex_disk] ok
  have "evict_phases ex_raw_file [False, True, False] ex_disk =
        (Inr (- int (\<Sum>f \<in> local_filename ` set (flagged ex_raw_file [False, True, False]). file_size ex_disk f)),
         ex_disk\<lparr>files := files ex_disk |` (- local_filename ` set (flagged ex_raw_file [False, True, False])),
           log := log ex_disk @ map (\<lambda>p. Evict (local_filename p)) (flagged ex_raw_file [False, True, False])\<rparr>)"
    by blast
  then have 2: "evict_phases ex_raw_file [False, True, False] ex_disk =
       (Inr (- 3), \<lparr>files = Map.empty, remote = Map.empty, log = [Evict ''shard.00000.mds'']\<rparr>)"
    unfolding fl by (simp add: ex_raw_def ex_disk_def file_size_def r)
  from 1 2 show ?thesis by blast
qed

subsection \<open>Loading\<close>

lemma localities_of_iff:
  "phase_locs \<in> set (localities_of sf) \<longleftrightarrow>
     list_all2 (\<lambda>phase loc. (phase = None) = (loc = DNE)) (phases sf) phase_locs"
proof -
  have "set [DNE, REMOTE, LOCAL] = UNIV"
    using locality.exhaust by auto
  moreover have "length (phases sf) = 3"
    by (simp add: phases_def)
  ultimately show ?thesis
    unfolding localities_of_def set_filter set_n_lists
    by (auto dest: list_all2_lengthD)
qed

lemma evict_phases_Inr:
  assumes "evict_phases sf phase_dels s = (Inr d, s')"
  shows "s' = s\<lparr>files := files s |` (- local_filename ` set (flagged sf phase_dels)),
                log := log s @ map (\<lambda>p. Evict (local_filename p)) (flagged sf phase_dels)\<rparr>"
    and "d = - int (\<Sum>f \<in> local_filename ` set (flagged sf phase_dels). file_size s f)"
proof -
  have ok: "(None, True) \<notin> set (zip (phases sf) phase_dels)"
  proof
    assume "(None, True) \<in> set (zip (phases sf) phase_dels)"
    from evict_phases_loop_bad [OF this, of 0 s] assms show False
      by (auto simp: evict_phases_def)
  qed
  from evict_phases_loop_ok [OF ok, of 0 s] assms
  show "s' = s\<lparr>files := files s |` (- local_filename ` set (flagged sf phase_dels)),
                log := log s @ map (\<lambda>p. Evict (local_filename p)) (flagged sf phase_dels)\<rparr>"
    and "d = - int (\<Sum>f \<in> local_filename ` set (flagged sf phase_dels). file_size s f)"
    by (simp_all add: evict_phases_def flagged_def)
qed

lemma apply_policy_Inr:
  assumes "apply_policy sf phase_locs s = (Inr d, s')"
  shows "s' = s\<lparr>files := files s |`
                   (- local_filename ` set (flagged sf (get_phase_deletions (stream sf) phase_locs))),
                log := log s @ Policy phase_locs (get_phase_deletions (stream sf) phase_locs) #
                   map (\<lambda>p. Evict (local_filename p))
                     (flagged sf (get_phase_deletions (stream sf) phase_locs))\<rparr>"
  using evict_phases_Inr(1) [of sf "get_phase_deletions (stream sf) phase_locs"
          "emit (Policy phase_locs (get_phase_deletions (stream sf) phase_locs)) s" d s'] assms
  by (simp add: apply_policy_def Let_def emit_def)

lemma apply_policy_keeps_terminal:
  assumes "apply_policy sf phase_locs s = (Inr d, s')" "keeps_terminal sf"
    "phase_locs \<in> set (localities_of sf)"
  shows "files s' (local_filename (terminal_phase sf)) = files s (local_filename (terminal_phase sf))"
proof -
  from assms(2,3) have "local_filename (terminal_phase sf) \<notin>
      local_filename ` set (flagged sf (get_phase_deletions (stream sf) phase_locs))"
    by (simp add: keeps_terminal_def)
  then show ?thesis
    by (simp add: apply_policy_Inr [OF assms(1)])
qed

lemma unzip_terminal_local:
  assumes "unzip ext sf s = (Inr d, s')" "keeps_terminal sf" "can_phase sf = None"
  shows "is_local (raw_phase sf) s'"
proof -
  from assms(1) obtain zp where zp: "zip_phase sf = Some zp"
    by (cases "zip_phase sf") (auto simp: unzip_def)
  with assms(3) have "[LOCAL, LOCAL, DNE] \<in> set (localities_of sf)"
    by (simp add: localities_of_iff phases_def)
  with assms zp show ?thesis
    by (auto simp: unzip_def Let_def is_local_def emit_def terminal_phase_def
           split: option.splits if_splits sum.splits prod.splits
           dest!: apply_policy_keeps_terminal)
qed

lemma sf_canonicalize_terminal_local:
  assumes "sf_canonicalize ext sf s = (Inr d, s')" "keeps_terminal sf"
  shows "is_local (terminal_phase sf) s'"
proof -
  from assms(1) obtain cp where cp: "can_phase sf = Some cp"
    by (cases "can_phase sf") (auto simp: sf_canonicalize_def split: option.splits)
  then have "\<And>zip_loc. (zip_loc = DNE) = (zip_phase sf = None) \<Longrightarrow>
      [zip_loc, LOCAL, LOCAL] \<in> set (localities_of sf)"
    by (auto simp: localities_of_iff phases_def)
  with assms cp show ?thesis
    by (auto simp: sf_canonicalize_def Let_def is_local_def emit_def terminal_phase_def
           split: option.splits if_splits sum.splits prod.splits
           dest!: apply_policy_keeps_terminal)
qed

lemma download_local: "download p s = (Inr d, s') \<Longrightarrow> is_local p s'"
  by (auto simp: download_def is_local_def emit_def split: option.splits if_splits)

lemma plus_then_Inr:
  "plus_then r f = (Inr d, s') \<Longrightarrow> \<exists>a s1 b. r = (Inr a, s1) \<and> f s1 = (Inr b, s') \<and> d = a + b"
  by (auto simp: plus_then_def split: prod.splits sum.splits)

lemma load_raw_terminal_local:
  assumes "load_raw ext sf s = (Inr d, s')" "keeps_terminal sf" "can_phase sf = None"
  shows "is_local (raw_phase sf) s'"
  using assms
  by (auto simp: load_raw_def split: if_splits option.splits
           dest!: plus_then_Inr dest: unzip_terminal_local download_local)

lemma load_terminal_local:
  assumes "load ext sf s = (Inr d, s')" "keeps_terminal sf"
  shows "is_local (terminal_phase sf) s'"
proof (cases "can_phase sf")
  case None
  with assms load_raw_terminal_local [of ext sf s d s'] show ?thesis
    by (simp add: load_def terminal_phase_def)
next
  case (Some cp)
  show ?thesis
  proof (cases "is_local cp s")
    case True
    with assms Some show ?thesis by (simp add: load_def terminal_phase_def)
  next
    case False
    with assms Some obtain s1 b where "sf_canonicalize ext sf s1 = (Inr b, s')"
      by (auto simp: load_def dest!: plus_then_Inr)
    from sf_canonicalize_terminal_local [OF this assms(2)] show ?thesis .
  qed
qed

lemma load_noop: "is_local (terminal_phase sf) s \<Longrightarrow> load ext sf s = (Inr 0, s)"
  by (auto simp: load_def load_raw_def terminal_phase_def split: option.splits)

text \<open>
  Claim C3. When the terminal configured phase (canonical if configured, else raw) is
  already local, \<open>load()\<close> returns 0 and leaves disk, remote store and log as they
  were: no download, codec call, write, policy call or eviction. A successful \<open>load()\<close>
  leaves the terminal phase local whenever the keep policy never flags it, so a second
  \<open>load()\<close> right after returns 0 and changes nothing.
\<close>

theorem load_idempotent:
  "(is_local (terminal_phase sf) s \<longrightarrow> load ext sf s = (Inr 0, s)) \<and>
   (keeps_terminal sf \<and> load ext sf s = (Inr d, s') \<longrightarrow> load ext sf s' = (Inr 0, s'))"
  using load_noop load_terminal_local by blast

lemma keeps_terminal_ex_zip_file: "keeps_terminal ex_zip_file"
  unfolding keeps_terminal_def
proof (intro ballI)
  fix phase_locs :: "locality list"
  assume "phase_locs \<in> set (localities_of ex_zip_file)"
  then obtain z r where "phase_locs = [z, r, DNE]"
    by (auto simp: localities_of_iff phases_def ex_zip_file_def list_all2_Cons1)
  then show "local_filename (terminal_phase ex_zip_file) \<notin>
      local_filename ` set (flagged ex_zip_file (get_phase_deletions (stream ex_zip_file) phase_locs))"
    by (simp add: terminal_phase_def ex_zip_file_def ex_stream_def flagged_def phases_def
          ex_raw_def ex_zip_def)
qed

lemma load_ex_zip_file:
  "load ex_codecs ex_zip_file ex_zip_disk = (Inr 3, ex_zip_disk_loaded)"
  unfolding ex_zip_disk_loaded_def
  by (simp add: load_def load_raw_def unzip_def ex_zip_file_def ex_zip_disk_def ex_codecs_def
        ex_zip_def ex_raw_def ex_stream_def is_local_def emit_def apply_policy_def
        evict_phases_def phases_def Let_def)

theorem load_idempotent_witness:
  "is_local (terminal_phase ex_raw_file) ex_disk \<and>
   load ex_codecs ex_raw_file ex_disk = (Inr 0, ex_disk) \<and>
   keeps_terminal ex_zip_file \<and>
   load ex_codecs ex_zip_file ex_zip_disk = (Inr 3, ex_zip_disk_loaded) \<and>
   load ex_codecs ex_zip_file ex_zip_disk_loaded = (Inr 0, ex_zip_disk_loaded)"
proof -
  have loc: "is_local (terminal_phase ex_raw_file) ex_disk"
    by (simp add: is_local_def terminal_phase_def ex_raw_file_def ex_disk_def ex_raw_def)
  from load_idempotent [where sf = ex_raw_file and s = ex_disk and ext = ex_codecs] loc
  have 1: "load ex_codecs ex_raw_file ex_disk = (Inr 0, ex_disk)"
    by blast
  from load_idempotent [where sf = ex_zip_file and ext = ex_codecs and s = ex_zip_disk
      and d = 3 and s' = ex_zip_disk_loaded]
    keeps_terminal_ex_zip_file load_ex_zip_file
  have 2: "load ex_codecs ex_zip_file ex_zip_disk_loaded = (Inr 0, ex_zip_disk_loaded)"
    by blast
  from loc 1 2 keeps_terminal_ex_zip_file load_ex_zip_file show ?thesis
    by blast
qed

text \<open>
  Claim C4. For a shard file with a compressed phase of declared size \<open>n\<close> whose local
  compressed file has another length, a \<open>load()\<close> that has to produce the raw phase
  fails with the \<open>ValueError\<close> of the compressed size check, before anything is
  written: the state is unchanged, so neither the raw file nor its \<open>.tmp\<close> file
  appears and the raw phase stays absent.
\<close>

theorem load_rejects_bad_zip_size:
  assumes "zip_phase sf = Some zp"
    and "phase_size zp = Some n"
    and "files s (local_filename zp) = Some zip_data"
    and "length zip_data \<noteq> n"
    and "\<not> is_local (raw_phase sf) s"
    and "\<not> is_local (terminal_phase sf) s"
  shows "load ext sf s = (Inl (ValueError ''Compressed data does not match the expected size''), s)
         \<and> \<not> is_local (raw_phase sf) (snd (load ext sf s))
         \<and> files (snd (load ext sf s)) (local_filename (raw_phase sf) @ ''.tmp'') =
             files s (local_filename (raw_phase sf) @ ''.tmp'')
         \<and> log (snd (load ext sf s)) = log s"
proof -
  have u: "unzip ext sf s = (Inl (ValueError ''Compressed data does not match the expected size''), s)"
    using assms(1-4) by (simp add: unzip_def)
  have zl: "is_local zp s"
    using assms(3) by (simp add: is_local_def)
  have r: "load_raw ext sf s = (Inl (ValueError ''Compressed data does not match the expected size''), s)"
    using assms(1,5) zl u by (simp add: load_raw_def)
  have "load ext sf s = (Inl (ValueError ''Compressed data does not match the expected size''), s)"
    using assms(6) r by (auto simp: load_def plus_then_def terminal_phase_def split: option.splits)
  with assms(5) show ?thesis by simp
qed

theorem load_rejects_bad_zip_size_witness:
  "load ex_codecs ex_zip_file ex_bad_zip_disk =
     (Inl (ValueError ''Compressed data does not match the expected size''), ex_bad_zip_disk)
   \<and> \<not> is_local (raw_phase ex_zip_file) (snd (load ex_codecs ex_zip_file ex_bad_zip_disk))
   \<and> files (snd (load ex_codecs ex_zip_file ex_bad_zip_disk)) ''shard.00000.mds.tmp'' = None"
proof -
  have "load ex_codecs ex_zip_file ex_bad_zip_disk =
          (Inl (ValueError ''Compressed data does not match the expected size''), ex_bad_zip_disk)
        \<and> \<not> is_local (raw_phase ex_zip_file) (snd (load ex_codecs ex_zip_file ex_bad_zip_disk))
        \<and> files (snd (load ex_codecs ex_zip_file ex_bad_zip_disk))
             (local_filename (raw_phase ex_zip_file) @ ''.tmp'') =
           files ex_bad_zip_disk (local_filename (raw_phase ex_zip_file) @ ''.tmp'')
        \<and> log (snd (load ex_codecs ex_zip_file ex_bad_zip_disk)) = log ex_bad_zip_disk"
    by (rule load_rejects_bad_zip_size [where zp = ex_zip and n = 2 and zip_data = "[1, 2, 3]"])
       (simp_all add: ex_zip_file_def ex_zip_def ex_raw_def ex_bad_zip_disk_def is_local_def
          terminal_phase_def)
  then have "load ex_codecs ex_zip_file ex_bad_zip_disk =
          (Inl (ValueError ''Compressed data does not match the expected size''), ex_bad_zip_disk)"
    by blast
  then show ?thesis
    by (simp add: ex_zip_file_def ex_raw_def ex_bad_zip_disk_def is_local_def)
qed

subsection \<open>Normalising a directory\<close>

lemma init_dir_loop_eq:
  "init_dir_loop phs listing s du phase_locs =
     (du + (\<Sum>phase\<leftarrow>phs. slot_du phase listing s),
      phase_locs @ map (\<lambda>phase. case phase of
                          Some p \<Rightarrow> if phase_init_dir p listing s \<noteq> 0 then LOCAL else REMOTE
                        | None \<Rightarrow> DNE) phs)"
  by (induction phs arbitrary: du phase_locs)
     (auto simp: slot_du_def Let_def split: option.splits)

lemma evict_phases_loop_log:
  "\<exists>evs. log (snd (evict_phases_loop pds ddu s)) = log s @ evs"
proof (induction pds arbitrary: ddu s)
  case Nil
  then show ?case by simp
next
  case (Cons a pds)
  obtain ph d where a: "a = (ph, d)" by (cases a)
  show ?case
  proof (cases "d \<and> ph \<noteq> None")
    case False
    with a Cons.IH [of ddu s] show ?thesis by (cases ph) auto
  next
    case True
    then obtain p where "ph = Some p" by auto
    with True a Cons.IH [of "ddu - int (file_size s (local_filename p))"
        "s\<lparr>files := (files s)(local_filename p := None), log := log s @ [Evict (local_filename p)]\<rparr>"]
    show ?thesis by (auto simp: phase_evict_eq)
  qed
qed

lemma apply_policy_log:
  "\<exists>evs. log (snd (apply_policy sf phase_locs s)) =
     log s @ Policy phase_locs (get_phase_deletions (stream sf) phase_locs) # evs"
  using evict_phases_loop_log [of "zip (phases sf) (get_phase_deletions (stream sf) phase_locs)" 0
      "emit (Policy phase_locs (get_phase_deletions (stream sf) phase_locs)) s"]
  by (auto simp: apply_policy_def evict_phases_def Let_def emit_def)

lemma init_dir_log:
  "\<exists>evs. log (snd (init_dir sf listing s)) =
     log s @ Policy (snd (init_dir_loop (phases sf) listing s 0 []))
               (get_phase_deletions (stream sf) (snd (init_dir_loop (phases sf) listing s 0 []))) # evs"
proof -
  obtain du phase_locs where l: "init_dir_loop (phases sf) listing s 0 [] = (du, phase_locs)"
    by (cases "init_dir_loop (phases sf) listing s 0 []")
  obtain r s' where a: "apply_policy sf phase_locs s = (r, s')"
    by (cases "apply_policy sf phase_locs s")
  from apply_policy_log [of sf phase_locs s] a l show ?thesis
    by (cases r) (auto simp: init_dir_def)
qed

lemma set_flagged_of: "q \<in> set (flagged_of pds) \<longleftrightarrow> (Some q, True) \<in> set pds"
  by (induction pds) (auto simp: flagged_of_def List.map_filter_simps split: option.splits if_splits)

lemma phase_init_dir_cong:
  "local_filename q = local_filename p \<Longrightarrow> phase_init_dir q listing s = phase_init_dir p listing s"
  by (simp add: phase_init_dir_def probe_def)

lemma init_dir_locs_in_localities:
  "snd (init_dir_loop (phases sf) listing s 0 []) \<in> set (localities_of sf)"
  by (simp add: localities_of_iff init_dir_loop_eq phases_def list_all2_Cons1 split: option.splits)

lemma unflagged_zero_phase:
  assumes fl: "flags_only_local sf"
    and z: "phase_init_dir p listing s = 0"
  shows "local_filename p \<notin> local_filename `
           set (flagged sf (get_phase_deletions (stream sf) (snd (init_dir_loop (phases sf) listing s 0 []))))"
proof
  let ?locs = "snd (init_dir_loop (phases sf) listing s 0 [])"
  let ?dels = "get_phase_deletions (stream sf) ?locs"
  assume "local_filename p \<in> local_filename ` set (flagged sf ?dels)"
  then obtain q where q: "(Some q, True) \<in> set (zip (phases sf) ?dels)"
    and qp: "local_filename q = local_filename p"
    by (auto simp: flagged_def set_flagged_of)
  from q obtain j where j: "j < length (phases sf)" "j < length ?dels"
    "phases sf ! j = Some q" "?dels ! j"
    by (auto simp: in_set_zip)
  have len: "length ?locs = length (phases sf)"
    by (simp add: init_dir_loop_eq)
  with j have "(?locs ! j, ?dels ! j) \<in> set (zip ?locs ?dels)"
    by (auto simp: in_set_zip)
  with fl init_dir_locs_in_localities [of sf listing s] j(4) have "?locs ! j = LOCAL"
    unfolding flags_only_local_def by fastforce
  with j(1,3) have "phase_init_dir q listing s \<noteq> 0"
    by (auto simp: init_dir_loop_eq split: if_splits)
  with phase_init_dir_cong [OF qp] z show False by simp
qed

text \<open>
  Claim C10. In \<open>init_dir\<close>, the configured phase of slot \<open>i\<close> is classified
  \<open>LOCAL\<close> exactly when its own \<open>init_dir\<close> contribution is nonzero. A contribution
  of 0 (the file is not listed, not on disk, or has zero bytes) makes it \<open>REMOTE\<close>; the
  usage collected is then the sum over the other slots; the keep policy is called on the
  vector that holds \<open>REMOTE\<close> in that slot; and a policy that flags only \<open>LOCAL\<close> slots
  flags no phase stored under that file name.
\<close>

theorem init_dir_classification:
  assumes "i < 3" and "phases sf ! i = Some p"
  shows "(snd (init_dir_loop (phases sf) listing s 0 []) ! i = LOCAL \<longleftrightarrow>
            phase_init_dir p listing s \<noteq> 0)
       \<and> (phase_init_dir p listing s = 0 \<longleftrightarrow>
            \<not> probe p listing \<or> files s (local_filename p) = None
            \<or> files s (local_filename p) = Some [])
       \<and> (phase_init_dir p listing s = 0 \<longrightarrow>
            snd (init_dir_loop (phases sf) listing s 0 []) ! i = REMOTE
          \<and> fst (init_dir_loop (phases sf) listing s 0 []) =
              (\<Sum>j \<in> {..<3} - {i}. slot_du (phases sf ! j) listing s)
          \<and> (\<exists>evs. log (snd (init_dir sf listing s)) =
                log s @ Policy (snd (init_dir_loop (phases sf) listing s 0 []))
                  (get_phase_deletions (stream sf) (snd (init_dir_loop (phases sf) listing s 0 []))) # evs)
          \<and> (flags_only_local sf \<longrightarrow>
                local_filename p \<notin> local_filename `
                  set (flagged sf (get_phase_deletions (stream sf)
                    (snd (init_dir_loop (phases sf) listing s 0 []))))))"
proof -
  have len: "length (phases sf) = 3"
    by (simp add: phases_def)
  have cls: "snd (init_dir_loop (phases sf) listing s 0 []) ! i =
               (if phase_init_dir p listing s \<noteq> 0 then LOCAL else REMOTE)"
    using assms len by (simp add: init_dir_loop_eq)
  have zero: "phase_init_dir p listing s = 0 \<longleftrightarrow>
       \<not> probe p listing \<or> files s (local_filename p) = None \<or> files s (local_filename p) = Some []"
    by (auto simp: phase_init_dir_def split: option.splits)
  have du: "fst (init_dir_loop (phases sf) listing s 0 []) =
              (\<Sum>j \<in> {..<3}. slot_du (phases sf ! j) listing s)"
    by (simp add: init_dir_loop_eq phases_def numeral_3_eq_3)
  have du': "phase_init_dir p listing s = 0 \<Longrightarrow>
       (\<Sum>j \<in> {..<3}. slot_du (phases sf ! j) listing s) =
       (\<Sum>j \<in> {..<3} - {i}. slot_du (phases sf ! j) listing s)"
    using assms by (subst sum.remove [where x = i]) (simp_all add: slot_du_def)
  from cls zero du du' init_dir_log [of sf listing s] unflagged_zero_phase [of sf p listing s]
  show ?thesis by auto
qed

lemma flags_only_local_ex_raw_file: "flags_only_local ex_raw_file"
  unfolding flags_only_local_def
proof (intro ballI)
  fix phase_locs :: "locality list" and x :: "locality \<times> bool"
  assume "phase_locs \<in> set (localities_of ex_raw_file)"
  then obtain r where r: "phase_locs = [DNE, r, DNE]"
    by (auto simp: localities_of_iff phases_def ex_raw_file_def list_all2_Cons1)
  assume "x \<in> set (zip phase_locs (get_phase_deletions (stream ex_raw_file) phase_locs))"
  with r show "case x of (loc, phase_del) \<Rightarrow> phase_del \<longrightarrow> loc = LOCAL"
    by (auto simp: ex_raw_file_def ex_stream_def)
qed

theorem init_dir_classification_witness:
  "phases ex_raw_file ! 1 = Some ex_raw
   \<and> phase_init_dir ex_raw {''shard.00000.mds''} ex_disk = 3
   \<and> snd (init_dir_loop (phases ex_raw_file) {''shard.00000.mds''} ex_disk 0 []) ! 1 = LOCAL
   \<and> phase_init_dir ex_raw {''shard.00000.mds''} ex_empty_raw_disk = 0
   \<and> snd (init_dir_loop (phases ex_raw_file) {''shard.00000.mds''} ex_empty_raw_disk 0 []) ! 1 = REMOTE
   \<and> flags_only_local ex_raw_file
   \<and> local_filename ex_raw \<notin> local_filename `
        set (flagged ex_raw_file (get_phase_deletions (stream ex_raw_file)
          (snd (init_dir_loop (phases ex_raw_file) {''shard.00000.mds''} ex_empty_raw_disk 0 []))))"
proof -
  have slot: "phases ex_raw_file ! 1 = Some ex_raw"
    by (simp add: phases_def ex_raw_file_def)
  have three: "phase_init_dir ex_raw {''shard.00000.mds''} ex_disk = 3"
    by (simp add: phase_init_dir_def probe_def ex_raw_def ex_disk_def)
  have zero: "phase_init_dir ex_raw {''shard.00000.mds''} ex_empty_raw_disk = 0"
    by (simp add: phase_init_dir_def probe_def ex_raw_def ex_empty_raw_disk_def)
  from init_dir_classification [of 1 ex_raw_file ex_raw "{''shard.00000.mds''}" ex_disk] slot three
  have 1: "snd (init_dir_loop (phases ex_raw_file) {''shard.00000.mds''} ex_disk 0 []) ! 1 = LOCAL"
    by simp
  from init_dir_classification [of 1 ex_raw_file ex_raw "{''shard.00000.mds''}" ex_empty_raw_disk]
    slot zero flags_only_local_ex_raw_file
  have 2: "snd (init_dir_loop (phases ex_raw_file) {''shard.00000.mds''} ex_empty_raw_disk 0 []) ! 1 = REMOTE
     \<and> local_filename ex_raw \<notin> local_filename `
        set (flagged ex_raw_file (get_phase_deletions (stream ex_raw_file)
          (snd (init_dir_loop (phases ex_raw_file) {''shard.00000.mds''} ex_empty_raw_disk 0 []))))"
    by simp
  from slot three zero 1 2 flags_only_local_ex_raw_file show ?thesis by blast
qed

subsection \<open>Policy calls during a load\<close>

lemma policy_after_skip:
  "\<forall>e \<in> set A. \<not> is_transition b e \<Longrightarrow>
   policy_after b x sf present (A @ B) = policy_after b x sf (fold present_after A present) B"
  by (induction A arbitrary: present) simp_all

lemma fold_present_after_Evict:
  "fold present_after (map (\<lambda>p. Evict (local_filename p)) ps) present =
     present - local_filename ` set ps"
  by (induction ps arbitrary: present) auto

lemma policy_after_evictions:
  "policy_after b x sf present (evictions sf dels @ B) =
   policy_after b x sf (present - local_filename ` set (flagged sf dels)) B"
proof -
  have "\<forall>e \<in> set (evictions sf dels). \<not> is_transition b e"
    by (auto simp: evictions_def)
  from policy_after_skip [OF this] show ?thesis
    by (simp add: evictions_def fold_present_after_Evict)
qed

text \<open>A transition, the policy call on the vector due, and the evictions it orders.\<close>

lemma policy_after_transition:
  assumes "is_transition b e"
    and "phase_locs = handed_over x sf (present_after e present) e"
    and "\<not> starts_with_evict B"
  shows "policy_after b x sf present
           (e # Policy phase_locs (get_phase_deletions (stream sf) phase_locs) #
              evictions sf (get_phase_deletions (stream sf) phase_locs) @ B) =
         policy_after b x sf
           (present_after e present -
              local_filename ` set (flagged sf (get_phase_deletions (stream sf) phase_locs))) B"
  using assms by (simp add: policy_after_evictions)

lemma starts_with_evict_append:
  "\<not> starts_with_evict A \<Longrightarrow> \<not> starts_with_evict B \<Longrightarrow> \<not> starts_with_evict (A @ B)"
  by (cases A rule: starts_with_evict.cases) simp_all

lemma dom_restrict_compl: "dom (m |` (- A)) = dom m - A"
  by (auto simp: restrict_map_def dom_def)

lemma download_steps:
  assumes "download p s = (Inr d, s')"
  shows "\<exists>evs. log s' = log s @ evs \<and>
           \<not> starts_with_evict evs \<and>
           (\<forall>B. \<not> starts_with_evict B \<longrightarrow>
                policy_after False x sf (dom (files s)) (evs @ B) =
                policy_after False x sf (dom (files s')) B)"
proof -
  from assms have "log s' = log s @ [Download (local_filename p)]"
    and "dom (files s') = insert (local_filename p) (dom (files s))"
    by (auto simp: download_def emit_def split: option.splits if_splits)
  then show ?thesis by simp
qed

lemma apply_policy_steps:
  assumes "apply_policy sf phase_locs s = (Inr d, s')"
  shows "log s' = log s @ Policy phase_locs (get_phase_deletions (stream sf) phase_locs) #
           evictions sf (get_phase_deletions (stream sf) phase_locs)"
    and "dom (files s') = dom (files s) -
           local_filename ` set (flagged sf (get_phase_deletions (stream sf) phase_locs))"
  using apply_policy_Inr [OF assms] by (auto simp: evictions_def dom_restrict_compl)

lemma true_localities_nth:
  "true_localities sf present =
     [case zip_phase sf of Some p \<Rightarrow> if local_filename p \<in> present then LOCAL else REMOTE | None \<Rightarrow> DNE,
      if local_filename (raw_phase sf) \<in> present then LOCAL else REMOTE,
      case can_phase sf of Some p \<Rightarrow> if local_filename p \<in> present then LOCAL else REMOTE | None \<Rightarrow> DNE]"
  by (simp add: true_localities_def phases_def)

lemma unzip_steps:
  assumes "unzip ext sf s = (Inr d, s')" and "x \<longrightarrow> no_tmp_clash sf"
  shows "\<exists>evs. log s' = log s @ evs \<and>
           \<not> starts_with_evict evs \<and>
           (\<forall>B. \<not> starts_with_evict B \<longrightarrow>
                policy_after False x sf (dom (files s)) (evs @ B) =
                policy_after False x sf (dom (files s')) B)"
proof -
  from assms(1) obtain zp where zp1: "zip_phase sf = Some zp"
    by (cases "zip_phase sf") (auto simp: unzip_def)
  from assms(1) zp1 obtain zip_data where zd: "files s (local_filename zp) = Some zip_data"
    by (cases "files s (local_filename zp)") (auto simp: unzip_def)
  note zp = zp1 zd
  from assms(1) zp have zs: "phase_size zp = Some (length zip_data)"
    by (cases "phase_size zp") (auto simp: unzip_def split: if_splits)
  from assms(1) zp zs obtain raw_data where
    rd: "decompress ext (zip_algo sf) zip_data = Inr raw_data"
    by (cases "decompress ext (zip_algo sf) zip_data") (auto simp: unzip_def)
  from assms(1) zp zs rd have rs: "phase_size (raw_phase sf) = Some (length raw_data)"
    by (cases "phase_size (raw_phase sf)") (auto simp: unzip_def Let_def split: if_splits)
  define s3 where "s3 = s\<lparr>files := (files s)(local_filename (raw_phase sf) @ ''.tmp'' := None,
                                local_filename (raw_phase sf) \<mapsto> raw_data),
      log := log s @ [Decompress (zip_algo sf),
               Write (local_filename (raw_phase sf) @ ''.tmp''),
               Rename (local_filename (raw_phase sf) @ ''.tmp'') (local_filename (raw_phase sf))]\<rparr>"
  define can_loc where "can_loc = (case can_phase sf of
                      Some cp \<Rightarrow> if local_filename cp \<in> dom (files s3) then LOCAL else REMOTE
                    | None \<Rightarrow> DNE)"
  have s3: "log s3 = log s @ [Decompress (zip_algo sf),
               Write (local_filename (raw_phase sf) @ ''.tmp''),
               Rename (local_filename (raw_phase sf) @ ''.tmp'') (local_filename (raw_phase sf))]"
      "dom (files s3) = insert (local_filename (raw_phase sf))
         (insert (local_filename (raw_phase sf) @ ''.tmp'') (dom (files s)) -
            {local_filename (raw_phase sf) @ ''.tmp''})"
    by (auto simp: s3_def)
  have u: "unzip ext sf s =
      (case apply_policy sf [LOCAL, LOCAL, can_loc] s3 of
         (Inl e, s') \<Rightarrow> (Inl e, s')
       | (Inr d, s') \<Rightarrow> (Inr (int (length raw_data) + d), s'))"
    unfolding can_loc_def s3_def
    by (simp add: unzip_def zp zs rd rs Let_def emit_def is_local_def dom_def
          split: option.splits)
  from assms(1) obtain d' where ap: "apply_policy sf [LOCAL, LOCAL, can_loc] s3 = (Inr d', s')"
    unfolding u by (auto split: prod.splits sum.splits)
  note can_loc = can_loc_def
  let ?tmp = "local_filename (raw_phase sf) @ ''.tmp''"
  let ?raw = "local_filename (raw_phase sf)"
  let ?P3 = "dom (files s3)"
  let ?locs = "[LOCAL, LOCAL, can_loc]"
  let ?dels = "get_phase_deletions (stream sf) ?locs"
  have zin: "x \<Longrightarrow> local_filename zp \<in> ?P3"
    using assms(2) zp by (auto simp: s3(2) no_tmp_clash_def)
  have locs: "?locs = handed_over x sf ?P3 (Rename ?tmp ?raw)"
    using zin zp(1)
    by (auto simp: handed_over_def true_localities_nth can_loc s3(2) split: option.splits)
  have P3: "present_after (Rename ?tmp ?raw) (insert ?tmp (dom (files s))) = ?P3"
    by (simp add: s3(2))
  have l: "log s' = log s @ ([Decompress (zip_algo sf), Write ?tmp] @
              Rename ?tmp ?raw # Policy ?locs ?dels # evictions sf ?dels)"
    using apply_policy_steps(1) [OF ap] s3(1) by simp
  have d: "dom (files s') = ?P3 - local_filename ` set (flagged sf ?dels)"
    using apply_policy_steps(2) [OF ap] .
  have "policy_after False x sf (dom (files s))
          (([Decompress (zip_algo sf), Write ?tmp] @
              Rename ?tmp ?raw # Policy ?locs ?dels # evictions sf ?dels) @ B) =
        policy_after False x sf (dom (files s')) B" if nb: "\<not> starts_with_evict B" for B
  proof -
    have "policy_after False x sf (insert ?tmp (dom (files s)))
            (Rename ?tmp ?raw # Policy ?locs ?dels # evictions sf ?dels @ B) =
          policy_after False x sf (?P3 - local_filename ` set (flagged sf ?dels)) B"
      using policy_after_transition [of False "Rename ?tmp ?raw" ?locs x sf
          "insert ?tmp (dom (files s))" B] locs nb
      unfolding P3 by simp
    then show ?thesis
      unfolding d by simp
  qed
  moreover have "\<not> starts_with_evict ([Decompress (zip_algo sf), Write ?tmp] @
              Rename ?tmp ?raw # Policy ?locs ?dels # evictions sf ?dels)"
    by simp
  ultimately show ?thesis using l by blast
qed

lemma sf_canonicalize_steps:
  assumes "sf_canonicalize ext sf s = (Inr d, s')"
  shows "\<exists>evs. log s' = log s @ evs \<and>
           \<not> starts_with_evict evs \<and>
           (\<forall>B. \<not> starts_with_evict B \<longrightarrow>
                policy_after False x sf (dom (files s)) (evs @ B) =
                policy_after False x sf (dom (files s')) B)"
proof -
  from assms obtain algo cp where ac: "can_algo sf = Some algo" "can_phase sf = Some cp"
    by (cases "can_algo sf"; cases "can_phase sf") (auto simp: sf_canonicalize_def)
  from assms ac have ne: "algo \<noteq> []"
    by (auto simp: sf_canonicalize_def split: if_splits)
  from assms ac ne obtain raw_data where
    rd: "files s (local_filename (raw_phase sf)) = Some raw_data"
    by (cases "files s (local_filename (raw_phase sf))") (auto simp: sf_canonicalize_def)
  from assms ac ne rd obtain can_data where
    cd: "canonicalize ext algo raw_data = Inr can_data"
    by (cases "canonicalize ext algo raw_data") (auto simp: sf_canonicalize_def)
  let ?raw = "local_filename (raw_phase sf)"
  let ?can = "local_filename cp"
  define s1 where "s1 = s\<lparr>files := (files s)(local_filename cp \<mapsto> can_data),
      log := log s @ [Canonicalize algo (local_filename (raw_phase sf)) (local_filename cp)]\<rparr>"
  define zip_loc where "zip_loc = (case zip_phase sf of
                      Some zp \<Rightarrow> if local_filename zp \<in> dom (files s1) then LOCAL else REMOTE
                    | None \<Rightarrow> DNE)"
  have s1: "log s1 = log s @ [Canonicalize algo ?raw ?can]"
      "dom (files s1) = insert ?can (dom (files s))"
    by (auto simp: s1_def)
  from assms ac ne rd cd have sz: "\<not> (phase_size cp \<noteq> None \<and> Some (length can_data) \<noteq> phase_size cp)"
    by (auto simp: sf_canonicalize_def Let_def split: if_splits)
  have u: "sf_canonicalize ext sf s =
      (case apply_policy sf [zip_loc, LOCAL, LOCAL] s1 of
         (Inl e, s') \<Rightarrow> (Inl e, s')
       | (Inr d, s') \<Rightarrow> (Inr (int (length can_data) + d), s'))"
    using sz unfolding zip_loc_def s1_def
    by (auto simp: sf_canonicalize_def ac ne rd cd Let_def emit_def is_local_def dom_def
          split: option.splits)
  from assms obtain d' where ap: "apply_policy sf [zip_loc, LOCAL, LOCAL] s1 = (Inr d', s')"
    unfolding u by (auto split: prod.splits sum.splits)
  let ?P1 = "dom (files s1)"
  let ?locs = "[zip_loc, LOCAL, LOCAL]"
  let ?dels = "get_phase_deletions (stream sf) ?locs"
  have rin: "?raw \<in> ?P1"
    using rd by (auto simp: s1(2))
  have locs: "?locs = handed_over x sf ?P1 (Canonicalize algo ?raw ?can)"
    using rin ac(2)
    by (auto simp: handed_over_def true_localities_nth zip_loc_def s1(2) split: option.splits)
  have P1: "present_after (Canonicalize algo ?raw ?can) (dom (files s)) = ?P1"
    by (simp add: s1(2))
  have l: "log s' = log s @
              (Canonicalize algo ?raw ?can # Policy ?locs ?dels # evictions sf ?dels)"
    using apply_policy_steps(1) [OF ap] s1(1) by simp
  have d: "dom (files s') = ?P1 - local_filename ` set (flagged sf ?dels)"
    using apply_policy_steps(2) [OF ap] .
  have "policy_after False x sf (dom (files s))
          ((Canonicalize algo ?raw ?can # Policy ?locs ?dels # evictions sf ?dels) @ B) =
        policy_after False x sf (dom (files s')) B" if nb: "\<not> starts_with_evict B" for B
    using policy_after_transition [of False "Canonicalize algo ?raw ?can" ?locs x sf
        "dom (files s)" B] locs nb
    unfolding P1 d by simp
  moreover have "\<not> starts_with_evict
      (Canonicalize algo ?raw ?can # Policy ?locs ?dels # evictions sf ?dels)"
    by simp
  ultimately show ?thesis using l by blast
qed

lemma steps_compose:
  assumes "\<exists>evs. log s1 = log s @ evs \<and>
             \<not> starts_with_evict evs \<and>
             (\<forall>B. \<not> starts_with_evict B \<longrightarrow>
                  policy_after False x sf (dom (files s)) (evs @ B) =
                  policy_after False x sf (dom (files s1)) B)"
    and "\<exists>evs. log s2 = log s1 @ evs \<and>
             \<not> starts_with_evict evs \<and>
             (\<forall>B. \<not> starts_with_evict B \<longrightarrow>
                  policy_after False x sf (dom (files s1)) (evs @ B) =
                  policy_after False x sf (dom (files s2)) B)"
  shows "\<exists>evs. log s2 = log s @ evs \<and>
             \<not> starts_with_evict evs \<and>
             (\<forall>B. \<not> starts_with_evict B \<longrightarrow>
                  policy_after False x sf (dom (files s)) (evs @ B) =
                  policy_after False x sf (dom (files s2)) B)"
proof -
  from assms obtain e1 e2 where
    1: "log s1 = log s @ e1" "\<not> starts_with_evict e1"
       "\<forall>B. \<not> starts_with_evict B \<longrightarrow>
            policy_after False x sf (dom (files s)) (e1 @ B) =
            policy_after False x sf (dom (files s1)) B" and
    2: "log s2 = log s1 @ e2" "\<not> starts_with_evict e2"
       "\<forall>B. \<not> starts_with_evict B \<longrightarrow>
            policy_after False x sf (dom (files s1)) (e2 @ B) =
            policy_after False x sf (dom (files s2)) B"
    by blast
  have "log s2 = log s @ (e1 @ e2)" using 1(1) 2(1) by simp
  moreover have "\<not> starts_with_evict (e1 @ e2)"
    using 1(2) 2(2) by (rule starts_with_evict_append)
  moreover have "policy_after False x sf (dom (files s)) ((e1 @ e2) @ B) =
                 policy_after False x sf (dom (files s2)) B" if nb: "\<not> starts_with_evict B" for B
  proof -
    have "\<not> starts_with_evict (e2 @ B)"
      using 2(2) nb by (rule starts_with_evict_append)
    with 1(3) have "policy_after False x sf (dom (files s)) (e1 @ (e2 @ B)) =
                    policy_after False x sf (dom (files s1)) (e2 @ B)"
      by blast
    with 2(3) nb show ?thesis by simp
  qed
  ultimately show ?thesis by blast
qed

lemma steps_refl:
  "\<exists>evs. log s = log s @ evs \<and>
     \<not> starts_with_evict evs \<and>
     (\<forall>B. \<not> starts_with_evict B \<longrightarrow>
          policy_after False x sf (dom (files s)) (evs @ B) =
          policy_after False x sf (dom (files s)) B)"
  by (rule exI [of _ "[]"]) simp

lemma load_raw_steps:
  assumes "load_raw ext sf s = (Inr d, s')" and "x \<longrightarrow> no_tmp_clash sf"
  shows "\<exists>evs. log s' = log s @ evs \<and>
           \<not> starts_with_evict evs \<and>
           (\<forall>B. \<not> starts_with_evict B \<longrightarrow>
                policy_after False x sf (dom (files s)) (evs @ B) =
                policy_after False x sf (dom (files s')) B)"
proof (cases "is_local (raw_phase sf) s")
  case True
  with assms have "s' = s" by (simp add: load_raw_def)
  then show ?thesis using steps_refl by simp
next
  case False
  show ?thesis
  proof (cases "zip_phase sf")
    case None
    with False assms have "download (raw_phase sf) s = (Inr d, s')"
      by (simp add: load_raw_def)
    then show ?thesis by (rule download_steps)
  next
    case (Some zp)
    show ?thesis
    proof (cases "is_local zp s")
      case True
      with False Some assms have "unzip ext sf s = (Inr d, s')"
        by (simp add: load_raw_def)
      then show ?thesis using assms(2) by (rule unzip_steps)
    next
      case nl: False
      with False Some assms obtain a s1 b where
        a: "download zp s = (Inr a, s1)" and b: "unzip ext sf s1 = (Inr b, s')"
        by (auto simp: load_raw_def dest!: plus_then_Inr)
      show ?thesis
        using steps_compose [OF download_steps [OF a] unzip_steps [OF b assms(2)]] .
    qed
  qed
qed

lemma load_steps:
  assumes "load ext sf s = (Inr d, s')" and "x \<longrightarrow> no_tmp_clash sf"
  shows "\<exists>evs. log s' = log s @ evs \<and>
           \<not> starts_with_evict evs \<and>
           (\<forall>B. \<not> starts_with_evict B \<longrightarrow>
                policy_after False x sf (dom (files s)) (evs @ B) =
                policy_after False x sf (dom (files s')) B)"
proof (cases "can_phase sf")
  case None
  with assms show ?thesis by (simp add: load_def load_raw_steps)
next
  case (Some cp)
  show ?thesis
  proof (cases "is_local cp s")
    case True
    with Some assms have "s' = s" by (simp add: load_def)
    then show ?thesis using steps_refl by simp
  next
    case False
    with Some assms obtain a s1 b where
      a: "load_raw ext sf s = (Inr a, s1)" and b: "sf_canonicalize ext sf s1 = (Inr b, s')"
      by (auto simp: load_def dest!: plus_then_Inr)
    show ?thesis
      using steps_compose [OF load_raw_steps [OF a assms(2)] sf_canonicalize_steps [OF b]] .
  qed
qed

lemma load_policy_log:
  assumes "load ext sf s = (Inr d, s')" and "x \<longrightarrow> no_tmp_clash sf"
  shows "\<exists>evs. log s' = log s @ evs \<and> policy_after False x sf (dom (files s)) evs"
proof -
  from load_steps [OF assms] obtain evs where
    l: "log s' = log s @ evs" and
    b: "\<forall>B. \<not> starts_with_evict B \<longrightarrow>
            policy_after False x sf (dom (files s)) (evs @ B) =
            policy_after False x sf (dom (files s')) B"
    by blast
  have "\<not> starts_with_evict []"
    by simp
  with b have "policy_after False x sf (dom (files s)) (evs @ []) =
               policy_after False x sf (dom (files s')) []"
    by blast
  then have "policy_after False x sf (dom (files s)) evs"
    by simp
  with l show ?thesis by blast
qed

lemma load_ex_full_file:
  "load ex_codecs ex_full_file ex_remote_zip_disk =
     (Inr 3,
      \<lparr>files = [''shard.00000.can'' \<mapsto> [3, 2, 1]],
       remote = [''shard.00000.mds.zstd'' \<mapsto> [1, 2]],
       log = [Download ''shard.00000.mds.zstd'',
              Decompress (Some ''zstd''), Write ''shard.00000.mds.tmp'',
              Rename ''shard.00000.mds.tmp'' ''shard.00000.mds'',
              Policy [LOCAL, LOCAL, REMOTE] [False, False, False],
              Canonicalize ''canon'' ''shard.00000.mds'' ''shard.00000.can'',
              Policy [LOCAL, LOCAL, LOCAL] [True, True, False],
              Evict ''shard.00000.mds.zstd'', Evict ''shard.00000.mds'']\<rparr>)"
  by (simp add: load_def load_raw_def plus_then_def download_def unzip_def sf_canonicalize_def
        ex_full_file_def ex_remote_zip_disk_def ex_codecs_def
        ex_zip_def ex_raw_def ex_can_def ex_stream_def is_local_def emit_def apply_policy_def
        evict_phases_def phases_def phase_evict_def Let_def)

text \<open>
  With the compressed file stored under the raw file's \<open>.tmp\<close> name, \<open>_unzip\<close>
  overwrites it and renames it away, and still hands \<open>LOCAL\<close> over for the
  compressed phase.
\<close>

lemma unzip_tmp_clash:
  "load ex_codecs ex_tmp_file ex_tmp_disk =
     (Inr 3,
      \<lparr>files = [''shard.00000.mds'' \<mapsto> [1, 2, 3]], remote = Map.empty,
       log = [Decompress (Some ''zstd''), Write ''shard.00000.mds.tmp'',
              Rename ''shard.00000.mds.tmp'' ''shard.00000.mds'',
              Policy [LOCAL, LOCAL, DNE] [False, False, False]]\<rparr>)
   \<and> \<not> no_tmp_clash ex_tmp_file
   \<and> true_localities ex_tmp_file {''shard.00000.mds''} = [REMOTE, LOCAL, DNE]
   \<and> \<not> policy_after False True ex_tmp_file {''shard.00000.mds.tmp''}
         [Decompress (Some ''zstd''), Write ''shard.00000.mds.tmp'',
          Rename ''shard.00000.mds.tmp'' ''shard.00000.mds'',
          Policy [LOCAL, LOCAL, DNE] [False, False, False]]"
  by (simp add: load_def load_raw_def unzip_def ex_tmp_file_def ex_tmp_disk_def ex_codecs_def
        ex_tmp_zip_def ex_raw_def ex_stream_def is_local_def emit_def apply_policy_def
        evict_phases_def phases_def Let_def no_tmp_clash_def true_localities_def
        handed_over_def fun_upd_twist)

text \<open>
  Claim C2, as the code has it. In a successful \<open>load()\<close>, every decompression and every
  canonicalization is followed at once by a call of the keep policy and by the eviction
  of exactly the phases it flags, before anything else happens. The vector handed to the
  policy holds the locality of all three phases as the files are on disk at that moment
  (\<open>true_localities\<close>, replayed from the files present before the load through the
  events of the log): always so after a canonicalization; after a decompression, the slot
  of the compressed phase is set to \<open>LOCAL\<close> without a probe, which is its locality
  unless the compressed file is stored under the raw file's \<open>.tmp\<close> name. The download
  of the first phase is followed by no policy call.
\<close>

theorem load_policy_after_unzip_and_canonicalize:
  "fst (load ext sf s) = Inr d \<Longrightarrow>
   \<exists>evs. log (snd (load ext sf s)) = log s @ evs \<and>
         policy_after False False sf (dom (files s)) evs \<and>
         (no_tmp_clash sf \<longrightarrow> policy_after False True sf (dom (files s)) evs)"
proof -
  assume a: "fst (load ext sf s) = Inr d"
  then have l: "load ext sf s = (Inr d, snd (load ext sf s))"
    by (cases "load ext sf s") simp
  from load_policy_log [OF l, of False] obtain evs where
    e: "log (snd (load ext sf s)) = log s @ evs"
       "policy_after False False sf (dom (files s)) evs"
    by blast
  have "policy_after False True sf (dom (files s)) evs" if "no_tmp_clash sf"
  proof -
    from load_policy_log [OF l, of True] that obtain evs' where
      e': "log (snd (load ext sf s)) = log s @ evs'"
          "policy_after False True sf (dom (files s)) evs'"
      by blast
    from e(1) e'(1) have "evs' = evs" by simp
    with e'(2) show ?thesis by simp
  qed
  with e show ?thesis by blast
qed

theorem load_policy_after_unzip_and_canonicalize_witness:
  "fst (load ex_codecs ex_full_file ex_remote_zip_disk) = Inr 3 \<and>
   no_tmp_clash ex_full_file \<and>
   log (snd (load ex_codecs ex_full_file ex_remote_zip_disk)) =
     [Download ''shard.00000.mds.zstd'',
      Decompress (Some ''zstd''), Write ''shard.00000.mds.tmp'',
      Rename ''shard.00000.mds.tmp'' ''shard.00000.mds'',
      Policy [LOCAL, LOCAL, REMOTE] [False, False, False],
      Canonicalize ''canon'' ''shard.00000.mds'' ''shard.00000.can'',
      Policy [LOCAL, LOCAL, LOCAL] [True, True, False],
      Evict ''shard.00000.mds.zstd'', Evict ''shard.00000.mds''] \<and>
   policy_after False True ex_full_file {}
     [Download ''shard.00000.mds.zstd'',
      Decompress (Some ''zstd''), Write ''shard.00000.mds.tmp'',
      Rename ''shard.00000.mds.tmp'' ''shard.00000.mds'',
      Policy [LOCAL, LOCAL, REMOTE] [False, False, False],
      Canonicalize ''canon'' ''shard.00000.mds'' ''shard.00000.can'',
      Policy [LOCAL, LOCAL, LOCAL] [True, True, False],
      Evict ''shard.00000.mds.zstd'', Evict ''shard.00000.mds'']"
proof -
  have r: "fst (load ex_codecs ex_full_file ex_remote_zip_disk) = Inr 3"
    by (simp add: load_ex_full_file)
  have n: "no_tmp_clash ex_full_file"
    by (simp add: no_tmp_clash_def ex_full_file_def ex_zip_def ex_raw_def)
  have l: "log (snd (load ex_codecs ex_full_file ex_remote_zip_disk)) =
     [Download ''shard.00000.mds.zstd'',
      Decompress (Some ''zstd''), Write ''shard.00000.mds.tmp'',
      Rename ''shard.00000.mds.tmp'' ''shard.00000.mds'',
      Policy [LOCAL, LOCAL, REMOTE] [False, False, False],
      Canonicalize ''canon'' ''shard.00000.mds'' ''shard.00000.can'',
      Policy [LOCAL, LOCAL, LOCAL] [True, True, False],
      Evict ''shard.00000.mds.zstd'', Evict ''shard.00000.mds'']"
    by (simp add: load_ex_full_file)
  have s: "log ex_remote_zip_disk = []" "dom (files ex_remote_zip_disk) = {}"
    by (simp_all add: ex_remote_zip_disk_def)
  from load_policy_after_unzip_and_canonicalize [OF r] n obtain evs where
    e: "log (snd (load ex_codecs ex_full_file ex_remote_zip_disk)) = log ex_remote_zip_disk @ evs"
       "policy_after False True ex_full_file (dom (files ex_remote_zip_disk)) evs"
    by blast
  from e(1) have "evs = log (snd (load ex_codecs ex_full_file ex_remote_zip_disk))"
    by (simp only: s append_Nil)
  with e(2) have "policy_after False True ex_full_file {}
      (log (snd (load ex_codecs ex_full_file ex_remote_zip_disk)))"
    by (simp only: s)
  with r n l show ?thesis
    by (simp only: simp_thms)
qed

text \<open>
  Claim C2, as stated, asks for the policy call after the download of the first phase too.
  Loading a raw-only file that is not local downloads it and returns: the log holds the
  download alone, whatever the vector asked for.
\<close>

theorem load_no_policy_after_download:
  "load ex_codecs ex_raw_file ex_remote_disk =
     (Inr 3, \<lparr>files = [''shard.00000.mds'' \<mapsto> [1, 2, 3]],
              remote = [''shard.00000.mds'' \<mapsto> [1, 2, 3]],
              log = [Download ''shard.00000.mds'']\<rparr>)
   \<and> \<not> policy_after True True ex_raw_file {} [Download ''shard.00000.mds'']
   \<and> \<not> policy_after True False ex_raw_file {} [Download ''shard.00000.mds'']"
  by (simp add: load_def load_raw_def download_def ex_raw_file_def ex_remote_disk_def
        ex_raw_def is_local_def emit_def)


section \<open>Properties of prefix.py\<close>

subsection \<open>Duplicate directories\<close>

lemma check_my_locals_eq:
  "check_my_locals ds acc =
     (if distinct ds \<and> set ds \<inter> acc = {} then Inr (set ds \<union> acc)
      else Inl (ValueError ''Reused local directory: {dirname}. Provide a different one.''))"
  by (induction ds arbitrary: acc) auto

text \<open>
  Claim C7. When \<open>my_locals\<close> repeats a directory, \<open>get_shm_prefix\<close> fails with the
  error of the duplicate check and the state is the one before the call: nothing was
  attached or created and no barrier was crossed. When it repeats none, the check passes
  with the set of the list.
\<close>

theorem get_shm_prefix_duplicates:
  "(\<not> distinct my_locals \<longrightarrow>
      get_shm_prefix my_locals w s =
        (Inl (ValueError ''Reused local directory: {dirname}. Provide a different one.''), s))
   \<and> (distinct my_locals \<longrightarrow> check_my_locals my_locals {} = Inr (set my_locals))"
  by (simp add: get_shm_prefix_def check_my_locals_eq)

theorem get_shm_prefix_duplicates_witness:
  "\<not> distinct [ [47, 97], [47, 98], [47, 97 :: nat]]
   \<and> get_shm_prefix [ [47, 97], [47, 98], [47, 97]] ex_leader ex_shm_state =
       (Inl (ValueError ''Reused local directory: {dirname}. Provide a different one.''),
        ex_shm_state)
   \<and> distinct [ [47, 97], [47, 98 :: nat]]
   \<and> check_my_locals [ [47, 97], [47, 98]] {} = Inr {[47, 97], [47, 98]}"
  using get_shm_prefix_duplicates [of "[ [47, 97], [47, 98], [47, 97]]" ex_leader ex_shm_state]
    get_shm_prefix_duplicates [of "[ [47, 97], [47, 98]]" ex_leader ex_shm_state]
  by auto

subsection \<open>The search of the participants that are not local leader\<close>

lemma shms_call [simp]: "shms (call e s) = shms s"
  by (simp add: call_def)

lemma calls_call [simp]: "calls (call e s) = calls s @ [e]"
  by (simp add: call_def)

lemma attached_simps [simp]:
  "attached [] = []"
  "attached (evs @ evs') = attached evs @ attached evs'"
  "attached (Attach name # evs) = name # attached evs"
  "attached (Barrier # evs) = attached evs"
  "attached (InitProcessGroup # evs) = attached evs"
  "attached (DestroyProcessGroup # evs) = attached evs"
  "attached (Create name # evs) = attached evs"
  by (simp_all add: attached_def List.map_filter_def)

text \<open>Slots \<open>i\<close> to \<open>j - 1\<close> hold sets that decode and differ from mine: the search moves on to \<open>j\<close>.\<close>

lemma follower_scan_skip:
  assumes "j \<le> 1000000"
    and "\<forall>k. i \<le> k \<and> k < j \<longrightarrow>
           (\<exists>buf theirs. shms s (shm_name k) = Some buf \<and> unpack_locals buf = Inr theirs \<and>
              theirs \<noteq> mine)"
    and "i \<le> j"
  shows "follower_scan mine i s =
           follower_scan mine j (s\<lparr>calls := calls s @ map (\<lambda>k. Attach (shm_name k)) [i..<j]\<rparr>)"
  using assms
proof (induction "j - i" arbitrary: i s)
  case 0
  then show ?case by simp
next
  case (Suc n)
  then have ij: "i < j" "i < 1000000" by auto
  with Suc.prems obtain buf theirs where
    b: "shms s (shm_name i) = Some buf" "unpack_locals buf = Inr theirs" "theirs \<noteq> mine"
    by blast
  have step: "follower_scan mine i s = follower_scan mine (Suc i) (call (Attach (shm_name i)) s)"
    using ij b by (subst follower_scan.simps) (auto simp: Let_def)
  have "follower_scan mine (Suc i) (call (Attach (shm_name i)) s) =
        follower_scan mine j ((call (Attach (shm_name i)) s)
          \<lparr>calls := calls (call (Attach (shm_name i)) s) @ map (\<lambda>k. Attach (shm_name k)) [Suc i..<j]\<rparr>)"
    using Suc.hyps(2) Suc.prems ij by (intro Suc.hyps(1)) auto
  also have "(call (Attach (shm_name i)) s)
          \<lparr>calls := calls (call (Attach (shm_name i)) s) @ map (\<lambda>k. Attach (shm_name k)) [Suc i..<j]\<rparr> =
        s\<lparr>calls := calls s @ map (\<lambda>k. Attach (shm_name k)) [i..<j]\<rparr>"
    using ij by (simp add: call_def upt_conv_Cons)
  finally show ?case using step by simp
qed

lemma follower_scan_found:
  assumes "j < 1000000"
    and "\<forall>k<j. \<exists>buf theirs. shms s (shm_name k) = Some buf \<and> unpack_locals buf = Inr theirs \<and>
              theirs \<noteq> mine"
    and "shms s (shm_name j) = Some buf" "unpack_locals buf = Inr mine"
  shows "follower_scan mine 0 s =
           (Inr j, s\<lparr>calls := calls s @ map (\<lambda>k. Attach (shm_name k)) [0..<Suc j]\<rparr>)"
proof -
  have "follower_scan mine 0 s =
        follower_scan mine j (s\<lparr>calls := calls s @ map (\<lambda>k. Attach (shm_name k)) [0..<j]\<rparr>)"
    using assms(1,2) by (intro follower_scan_skip) auto
  also have "\<dots> = (Inr j, s\<lparr>calls := calls s @ map (\<lambda>k. Attach (shm_name k)) [0..<Suc j]\<rparr>)"
    using assms(1,3,4) by (subst follower_scan.simps) (simp add: Let_def call_def)
  finally show ?thesis .
qed

lemma follower_scan_exhausted:
  assumes "j < 1000000"
    and "\<forall>k<j. \<exists>buf theirs. shms s (shm_name k) = Some buf \<and> unpack_locals buf = Inr theirs \<and>
              theirs \<noteq> mine"
    and "shms s (shm_name j) = None"
  shows "follower_scan mine 0 s =
           (Inl (RuntimeError ''Internal error: shm prefix was not registered by local leader''),
            s\<lparr>calls := calls s @ map (\<lambda>k. Attach (shm_name k)) [0..<Suc j]\<rparr>)"
proof -
  have "follower_scan mine 0 s =
        follower_scan mine j (s\<lparr>calls := calls s @ map (\<lambda>k. Attach (shm_name k)) [0..<j]\<rparr>)"
    using assms(1,2) by (intro follower_scan_skip) auto
  also have "\<dots> = (Inl (RuntimeError ''Internal error: shm prefix was not registered by local leader''),
            s\<lparr>calls := calls s @ map (\<lambda>k. Attach (shm_name k)) [0..<Suc j]\<rparr>)"
    using assms(1,3) by (subst follower_scan.simps) (simp add: Let_def call_def)
  finally show ?thesis .
qed

text \<open>
  The bound of the search: when all \<open>10**6\<close> slots hold sets other than mine, the loop of
  the participant ends without an error, at the last slot.
\<close>

lemma follower_scan_full:
  assumes "\<forall>k<1000000. \<exists>buf theirs. shms s (shm_name k) = Some buf \<and>
             unpack_locals buf = Inr theirs \<and> theirs \<noteq> mine"
  shows "fst (follower_scan mine 0 s) = Inr 999999"
proof -
  have "follower_scan mine 0 s =
        follower_scan mine 1000000
          (s\<lparr>calls := calls s @ map (\<lambda>k. Attach (shm_name k)) [0..<1000000]\<rparr>)"
    using assms by (intro follower_scan_skip) auto
  then show ?thesis
    by (subst (asm) (2) follower_scan.simps) simp
qed

lemma first_barrier_shms [simp]: "shms (snd (first_barrier w s)) = shms s"
  by (simp add: first_barrier_def)

lemma first_barrier_attached [simp]:
  "attached (calls (snd (first_barrier w s))) = attached (calls s)"
  by (simp add: first_barrier_def)

lemma second_barrier_attached [simp]:
  "attached (calls (second_barrier d s)) = attached (calls s)"
  by (simp add: second_barrier_def Let_def)

lemma attached_map_Attach [simp]: "attached (map (\<lambda>k. Attach (f k)) ks) = map f ks"
  by (induction ks) (simp_all add: attached_def List.map_filter_simps)

text \<open>
  Claim C8. A participant that is not the local leader, with slots 0 to \<open>j - 1\<close> holding
  sets other than its own: if slot \<open>j\<close> holds its own set it resolves to prefix \<open>j\<close>
  and to that block; if slot \<open>j\<close> does not exist it fails with the internal error. Either
  way the names it tried to attach are those of slots 0 to \<open>j\<close>, in order.
\<close>

theorem follower_resolves_first_match:
  assumes "\<not> is_local_leader w" and "distinct my_locals" and "j < 1000000"
    and "\<forall>k<j. \<exists>buf theirs. shms s (shm_name k) = Some buf \<and> unpack_locals buf = Inr theirs \<and>
              theirs \<noteq> set my_locals"
  shows "((\<exists>buf. shms s (shm_name j) = Some buf \<and> unpack_locals buf = Inr (set my_locals)) \<longrightarrow>
            fst (get_shm_prefix my_locals w s) = Inr (format06 j, shm_name j))
       \<and> (shms s (shm_name j) = None \<longrightarrow>
            fst (get_shm_prefix my_locals w s) =
              Inl (RuntimeError ''Internal error: shm prefix was not registered by local leader''))
       \<and> (shms s (shm_name j) = None \<or>
          (\<exists>buf. shms s (shm_name j) = Some buf \<and> unpack_locals buf = Inr (set my_locals)) \<longrightarrow>
            attached (calls (snd (get_shm_prefix my_locals w s))) =
              attached (calls s) @ map shm_name [0..<Suc j])"
proof -
  obtain dd s2 where fb: "first_barrier w s = (dd, s2)"
    by (cases "first_barrier w s")
  then have s2: "shms s2 = shms s" "attached (calls s2) = attached (calls s)"
    using first_barrier_shms [of w s] first_barrier_attached [of w s] by simp_all
  have pre: "\<forall>k<j. \<exists>buf theirs. shms s2 (shm_name k) = Some buf \<and>
      unpack_locals buf = Inr theirs \<and> theirs \<noteq> set my_locals"
    using assms(4) s2 by simp
  have g: "get_shm_prefix my_locals w s =
      (case follower_scan (set my_locals) 0 s2 of
         (Inl e, s3) \<Rightarrow> (Inl e, s3)
       | (Inr prefix_int, s3) \<Rightarrow>
           (Inr (format06 prefix_int, shm_name prefix_int), second_barrier dd s3))"
    using assms(1,2) fb by (simp add: get_shm_prefix_def check_my_locals_eq)
  have found: "fst (get_shm_prefix my_locals w s) = Inr (format06 j, shm_name j) \<and>
      attached (calls (snd (get_shm_prefix my_locals w s))) =
        attached (calls s) @ map shm_name [0..<Suc j]"
    if "shms s (shm_name j) = Some buf" "unpack_locals buf = Inr (set my_locals)" for buf
  proof -
    from that s2 have "shms s2 (shm_name j) = Some buf" by simp
    from follower_scan_found [OF assms(3) pre this that(2)] show ?thesis
      unfolding g by (simp add: s2 del: upt_Suc)
  qed
  have missing: "fst (get_shm_prefix my_locals w s) =
        Inl (RuntimeError ''Internal error: shm prefix was not registered by local leader'') \<and>
      attached (calls (snd (get_shm_prefix my_locals w s))) =
        attached (calls s) @ map shm_name [0..<Suc j]"
    if "shms s (shm_name j) = None"
  proof -
    from that s2 have "shms s2 (shm_name j) = None" by simp
    from follower_scan_exhausted [OF assms(3) pre this] show ?thesis
      unfolding g by (simp add: s2 del: upt_Suc)
  qed
  from found missing show ?thesis by blast
qed

lemma decode_code_points_Nil [simp]: "decode_code_points [] = Some []"
  by (simp add: decode_code_points.simps)

lemma decode_code_points_Cons:
  "decode_code_points (b # bs) =
     (case decode_code_point (b # bs) of
        None \<Rightarrow> None
      | Some (c, rest) \<Rightarrow>
          (case decode_code_points rest of None \<Rightarrow> None | Some cs \<Rightarrow> Some (c # cs)))"
  by (subst decode_code_points.simps) simp

lemma decode_code_points_ascii [simp]:
  "b < 0x80 \<Longrightarrow> decode_code_points (b # bs) = map_option ((#) b) (decode_code_points bs)"
  by (simp add: decode_code_points_Cons decode_code_point_def split: option.splits)

lemma shm_name_ex:
  "shm_name 0 = ''000000_locals''" "shm_name 1 = ''000001_locals''" "shm_name 2 = ''000002_locals''"
  "shm_name (Suc 0) = ''000001_locals''" "format06 1 = ''000001''" "format06 (Suc 0) = ''000001''"
  by (simp_all add: shm_name_def format06_def digit_def)

lemma unpack_locals_ex:
  "unpack_locals [6, 0, 0, 0, 47, 97] = Inr {[47, 97]}"
  "unpack_locals [6, 0, 0, 0, 47, 98] = Inr {[47, 98]}"
  by (simp_all add: unpack_locals_def int32_frombuffer_def py_slice_def utf8_decode_def)

theorem follower_resolves_first_match_witness:
  "fst (get_shm_prefix [ [47, 98]] ex_follower ex_registry) = Inr (''000001'', ''000001_locals'')
   \<and> attached (calls (snd (get_shm_prefix [ [47, 98]] ex_follower ex_registry))) =
        [''000000_locals'', ''000001_locals'']
   \<and> fst (get_shm_prefix [ [47, 99]] ex_follower ex_registry) =
        Inl (RuntimeError ''Internal error: shm prefix was not registered by local leader'')
   \<and> attached (calls (snd (get_shm_prefix [ [47, 99]] ex_follower ex_registry))) =
        [''000000_locals'', ''000001_locals'', ''000002_locals'']"
proof -
  have nl: "\<not> is_local_leader ex_follower"
    by (simp add: ex_follower_def)
  have s0: "shms ex_registry (shm_name 0) = Some [6, 0, 0, 0, 47, 97]"
    and s1: "shms ex_registry (shm_name 1) = Some [6, 0, 0, 0, 47, 98]"
    and s2: "shms ex_registry (shm_name 2) = None"
    by (simp_all add: shm_name_ex ex_registry_def)
  have before1: "\<forall>k<1. \<exists>buf theirs. shms ex_registry (shm_name k) = Some buf \<and>
      unpack_locals buf = Inr theirs \<and> theirs \<noteq> set [ [47, 98]]"
    using s0 unpack_locals_ex(1) by auto
  have before2: "\<forall>k<2. \<exists>buf theirs. shms ex_registry (shm_name k) = Some buf \<and>
      unpack_locals buf = Inr theirs \<and> theirs \<noteq> set [ [47, 99]]"
  proof (intro allI impI)
    fix k :: nat
    assume "k < 2"
    then have "k = 0 \<or> k = 1" by auto
    then show "\<exists>buf theirs. shms ex_registry (shm_name k) = Some buf \<and>
      unpack_locals buf = Inr theirs \<and> theirs \<noteq> set [ [47, 99]]"
      using s0 s1 unpack_locals_ex by auto
  qed
  have own: "\<exists>buf. shms ex_registry (shm_name 1) = Some buf \<and>
      unpack_locals buf = Inr (set [ [47, 98]])"
    using s1 unpack_locals_ex(2) by simp
  from follower_resolves_first_match [OF nl _ _ before1] own
  have a: "fst (get_shm_prefix [ [47, 98]] ex_follower ex_registry) = Inr (format06 1, shm_name 1)
     \<and> attached (calls (snd (get_shm_prefix [ [47, 98]] ex_follower ex_registry))) =
         attached (calls ex_registry) @ map shm_name [0..<Suc 1]"
    by simp
  from follower_resolves_first_match [OF nl _ _ before2] s2
  have b: "fst (get_shm_prefix [ [47, 99]] ex_follower ex_registry) =
        Inl (RuntimeError ''Internal error: shm prefix was not registered by local leader'')
     \<and> attached (calls (snd (get_shm_prefix [ [47, 99]] ex_follower ex_registry))) =
         attached (calls ex_registry) @ map shm_name [0..<Suc 2]"
    by simp
  have u: "[0..<Suc 1] = [0, 1]" "[0..<Suc 2] = [0, 1, 2]"
    by (simp_all add: upt_rec)
  from a b show ?thesis
    unfolding u by (simp add: shm_name_ex ex_registry_def)
qed

subsection \<open>Packing and unpacking the local directories\<close>

lemma str_split_join:
  "xs \<noteq> [] \<Longrightarrow> \<forall>x \<in> set xs. sep \<notin> set x \<Longrightarrow> str_split sep (str_join sep xs) = xs"
proof (induction sep xs rule: str_join.induct)
  case (1 sep)
  then show ?case by simp
next
  case (2 sep x)
  then show ?case
    by (induction x) (auto split: list.splits)
next
  case (3 sep x y ys)
  then have ih: "str_split sep (str_join sep (y # ys)) = y # ys" by simp
  from 3(3) have "sep \<notin> set x" by simp
  then show ?case
    by (induction x) (auto simp: ih split: list.splits)
qed

lemma set_str_join: "set (str_join sep xs) \<subseteq> insert sep (\<Union>x \<in> set xs. set x)"
  by (induction sep xs rule: str_join.induct) auto

lemma int32_roundtrip: "int32_frombuffer (int32_tobytes w) = Inr w"
proof -
  have lt: "unat w < 4294967296"
    using unsigned_less [of w, where 'a = nat] by simp
  then have hi: "unat w div 16777216 < 256" by simp
  have bytes: "unat (of_nat (unat w mod 256) :: 8 word) = unat w mod 256"
    "unat (of_nat (unat w div 256 mod 256) :: 8 word) = unat w div 256 mod 256"
    "unat (of_nat (unat w div 65536 mod 256) :: 8 word) = unat w div 65536 mod 256"
    "unat (of_nat (unat w div 16777216) :: 8 word) = unat w div 16777216"
    using hi by (simp_all add: unat_of_nat)
  have a: "unat w div 65536 = unat w div 256 div 256" "unat w div 16777216 = unat w div 256 div 256 div 256"
    by (simp_all add: div_mult2_eq)
  have s: "unat w mod 256 + 256 * (unat w div 256 mod 256) + 65536 * (unat w div 65536 mod 256) +
           16777216 * (unat w div 16777216) = unat w"
    unfolding a
    using div_mult_mod_eq [of "unat w" 256] div_mult_mod_eq [of "unat w div 256" 256]
      div_mult_mod_eq [of "unat w div 256 div 256" 256]
    by linarith
  show ?thesis
    unfolding int32_tobytes_def int32_frombuffer_def
    by (simp only: list.case bytes s) simp
qed

lemma split3: "(c::nat) div 4096 * 4096 + c div 64 mod 64 * 64 + c mod 64 = c"
proof -
  have a: "c div 4096 = c div 64 div 64" by (simp add: div_mult2_eq)
  have 1: "c div 64 * 64 + c mod 64 = c" by simp
  have 2: "c div 64 div 64 * 64 + c div 64 mod 64 = c div 64" by simp
  show ?thesis unfolding a using 1 2 by linarith
qed

lemma split4:
  "(c::nat) div 262144 * 262144 + c div 4096 mod 64 * 4096 + c div 64 mod 64 * 64 + c mod 64 = c"
proof -
  have a: "c div 262144 = c div 4096 div 64"
    by (simp add: div_mult2_eq)
  have 2: "c div 4096 div 64 * 64 + c div 4096 mod 64 = c div 4096" by simp
  show ?thesis unfolding a using 2 split3 [of c] by linarith
qed

lemma d2: "0x80 \<le> c \<Longrightarrow> c < 0x800 \<Longrightarrow> 2 \<le> (c::nat) div 64 \<and> c div 64 < 32"
  by (simp add: less_mult_imp_div_less le_div_geq) 

lemma d3: "c < 0x10000 \<Longrightarrow> (c::nat) div 4096 < 16"
  by (simp add: less_mult_imp_div_less)

lemma d4: "c < 0x110000 \<Longrightarrow> (c::nat) div 262144 < 5"
  by (simp add: less_mult_imp_div_less)

lemma encode_decode_2:
  assumes "0x80 \<le> c" "c < 0x800"
  shows "encode_code_point c = Some [0xC0 + c div 64, 0x80 + c mod 64]"
    "decode_code_point ([0xC0 + c div 64, 0x80 + c mod 64] @ rest) = Some (c, rest)"
proof -
  have d: "2 \<le> c div 64" "c div 64 < 32" using d2 [OF assms] by simp_all
  show "encode_code_point c = Some [0xC0 + c div 64, 0x80 + c mod 64]"
    using assms by (simp add: encode_code_point_def)
  have b0: "\<not> 0xC0 + c div 64 < (0x80::nat)" "\<not> 0xC0 + c div 64 < (0xC2::nat)"
    "0xC0 + c div 64 < (0xE0::nat)"
    using d by simp_all
  have cont: "is_continuation (0x80 + c mod 64)"
    by (simp add: is_continuation_def)
  have v: "(0xC0 + c div 64 - 0xC0) * 64 + (0x80 + c mod 64 - 0x80) = c"
    by simp
  show "decode_code_point ([0xC0 + c div 64, 0x80 + c mod 64] @ rest) = Some (c, rest)"
    unfolding decode_code_point_def decode2_def
    by (simp only: append.simps list.case b0 if_False if_True cont v)
qed

lemma encode_decode_3:
  assumes "0x800 \<le> c" "c < 0x10000" "\<not> (0xD800 \<le> c \<and> c < 0xE000)"
  shows "encode_code_point c =
           Some [0xE0 + c div 4096, 0x80 + c div 64 mod 64, 0x80 + c mod 64]"
    "decode_code_point ([0xE0 + c div 4096, 0x80 + c div 64 mod 64, 0x80 + c mod 64] @ rest) =
       Some (c, rest)"
proof -
  have d: "c div 4096 < 16" using d3 assms by simp
  show "encode_code_point c =
           Some [0xE0 + c div 4096, 0x80 + c div 64 mod 64, 0x80 + c mod 64]"
    using assms by (simp add: encode_code_point_def)
  have b0: "\<not> 0xE0 + c div 4096 < (0x80::nat)" "\<not> 0xE0 + c div 4096 < (0xC2::nat)"
    "\<not> 0xE0 + c div 4096 < (0xE0::nat)" "0xE0 + c div 4096 < (0xF0::nat)"
    using d by simp_all
  have cont: "is_continuation (0x80 + c div 64 mod 64)" "is_continuation (0x80 + c mod 64)"
    by (simp_all add: is_continuation_def)
  have v: "(0xE0 + c div 4096 - 0xE0) * 4096 + (0x80 + c div 64 mod 64 - 0x80) * 64 +
           (0x80 + c mod 64 - 0x80) = c"
    using split3 [of c] by simp
  have ok: "0x800 \<le> c \<and> \<not> (0xD800 \<le> c \<and> c < 0xE000)"
    using assms by simp
  show "decode_code_point ([0xE0 + c div 4096, 0x80 + c div 64 mod 64, 0x80 + c mod 64] @ rest) =
       Some (c, rest)"
    unfolding decode_code_point_def decode3_def
    by (simp only: append.simps list.case b0 if_False if_True cont v Let_def ok simp_thms)
qed

lemma encode_decode_4:
  assumes "0x10000 \<le> c" "c < 0x110000"
  shows "encode_code_point c =
           Some [0xF0 + c div 262144, 0x80 + c div 4096 mod 64, 0x80 + c div 64 mod 64,
                 0x80 + c mod 64]"
    "decode_code_point ([0xF0 + c div 262144, 0x80 + c div 4096 mod 64, 0x80 + c div 64 mod 64,
                 0x80 + c mod 64] @ rest) = Some (c, rest)"
proof -
  have d: "c div 262144 < 5" using d4 assms by simp
  show "encode_code_point c =
           Some [0xF0 + c div 262144, 0x80 + c div 4096 mod 64, 0x80 + c div 64 mod 64,
                 0x80 + c mod 64]"
    using assms by (simp add: encode_code_point_def)
  have b0: "\<not> 0xF0 + c div 262144 < (0x80::nat)" "\<not> 0xF0 + c div 262144 < (0xC2::nat)"
    "\<not> 0xF0 + c div 262144 < (0xE0::nat)" "\<not> 0xF0 + c div 262144 < (0xF0::nat)"
    "0xF0 + c div 262144 < (0xF5::nat)"
    using d by simp_all
  have cont: "is_continuation (0x80 + c div 4096 mod 64)"
    "is_continuation (0x80 + c div 64 mod 64)" "is_continuation (0x80 + c mod 64)"
    by (simp_all add: is_continuation_def)
  have v: "(0xF0 + c div 262144 - 0xF0) * 262144 + (0x80 + c div 4096 mod 64 - 0x80) * 4096 +
           (0x80 + c div 64 mod 64 - 0x80) * 64 + (0x80 + c mod 64 - 0x80) = c"
    using split4 [of c] by simp
  have ok: "0x10000 \<le> c \<and> c < 0x110000"
    using assms by simp
  show "decode_code_point ([0xF0 + c div 262144, 0x80 + c div 4096 mod 64, 0x80 + c div 64 mod 64,
                 0x80 + c mod 64] @ rest) = Some (c, rest)"
    unfolding decode_code_point_def decode4_def
    by (simp only: append.simps list.case b0 if_False if_True cont v Let_def ok simp_thms)
qed

lemma mod64_byte: "(x::nat) mod 64 < 128"
  by (rule order_less_trans [OF mod_less_divisor]) simp_all

lemma encode_decode_code_point:
  assumes "is_scalar c"
  shows "\<exists>bs. encode_code_point c = Some bs \<and> bs \<noteq> [] \<and> (\<forall>b \<in> set bs. b < 256) \<and>
           (\<forall>rest. decode_code_point (bs @ rest) = Some (c, rest))"
proof -
  consider "c < 0x80" | "0x80 \<le> c" "c < 0x800"
    | "0x800 \<le> c" "c < 0x10000" "\<not> (0xD800 \<le> c \<and> c < 0xE000)"
    | "0x10000 \<le> c" "c < 0x110000"
    using assms unfolding is_scalar_def by linarith
  then show ?thesis
  proof cases
    case 1
    then show ?thesis
      by (simp add: encode_code_point_def decode_code_point_def)
  next
    case 2
    have "c div 64 < 32" "c mod 64 < 64" using d2 [OF 2] by simp_all
    then show ?thesis
      using encode_decode_2 [OF 2] by (simp add: mod64_byte)
  next
    case 3
    have "c div 4096 < 16" "c div 64 mod 64 < 64" "c mod 64 < 64" using d3 3 by simp_all
    then show ?thesis
      using encode_decode_3 [OF 3] by (simp add: mod64_byte)
  next
    case 4
    have "c div 262144 < 5" "c div 4096 mod 64 < 64" "c div 64 mod 64 < 64" "c mod 64 < 64"
      using d4 4 by simp_all
    then show ?thesis
      using encode_decode_4 [OF 4] by (simp add: mod64_byte)
  qed
qed

lemma decode_code_points_step:
  "bs \<noteq> [] \<Longrightarrow> decode_code_point (bs @ rest) = Some (c, rest) \<Longrightarrow>
   decode_code_points (bs @ rest) =
     (case decode_code_points rest of None \<Rightarrow> None | Some cs \<Rightarrow> Some (c # cs))"
  by (subst decode_code_points.simps) simp

lemma encode_decode_code_points:
  assumes "\<forall>c \<in> set cs. is_scalar c"
  shows "\<exists>bs. encode_code_points cs = Some bs \<and> (\<forall>b \<in> set bs. b < 256) \<and>
           decode_code_points bs = Some cs"
  using assms
proof (induction cs)
  case Nil
  then show ?case by simp
next
  case (Cons c cs)
  then obtain rest where rest: "encode_code_points cs = Some rest" "\<forall>b \<in> set rest. b < 256"
    "decode_code_points rest = Some cs"
    by auto
  from Cons.prems have "is_scalar c" by simp
  from encode_decode_code_point [OF this] obtain bs where
    bs: "encode_code_point c = Some bs" "bs \<noteq> []" "\<forall>b \<in> set bs. b < 256"
      "\<forall>rest. decode_code_point (bs @ rest) = Some (c, rest)"
    by blast
  have "decode_code_points (bs @ rest) = Some (c # cs)"
    using decode_code_points_step [OF bs(2), of rest c] bs(4) rest(3) by simp
  with rest bs show ?case by auto
qed

lemma utf8_roundtrip:
  assumes "\<forall>c \<in> set text. is_scalar c"
  shows "\<exists>data. utf8_encode text = Inr data \<and> utf8_decode data = Inr text"
proof -
  from encode_decode_code_points [OF assms] obtain bs where
    bs: "encode_code_points text = Some bs" "\<forall>b \<in> set bs. b < 256"
      "decode_code_points bs = Some text"
    by blast
  have "map unat (map of_nat bs :: 8 word list) = bs"
    using bs(2) by (induction bs) (simp_all add: unat_of_nat)
  with bs show ?thesis
    by (simp add: utf8_encode_def utf8_decode_def)
qed

lemma py_slice_header: "length hdr = 4 \<Longrightarrow> py_slice (hdr @ data) 4 (int (4 + length data)) = data"
  by (simp add: py_slice_def Let_def)

lemma sint_of_nat_small: "n < 2147483648 \<Longrightarrow> sint (of_nat n :: 32 word) = int n"
  by (simp add: signed_of_nat signed_take_bit_int_eq_self)

lemma length_int32_tobytes [simp]: "length (int32_tobytes w) = 4"
  by (simp add: int32_tobytes_def)

lemma encode_code_point_scalar: "encode_code_point c = Some bs \<Longrightarrow> is_scalar c"
  by (auto simp: encode_code_point_def is_scalar_def split: if_splits)

lemma encode_code_points_scalar:
  "encode_code_points cs = Some bs \<Longrightarrow> \<forall>c \<in> set cs. is_scalar c"
  by (induction cs arbitrary: bs) (auto split: option.splits dest: encode_code_point_scalar)

lemma utf8_encode_decode: "utf8_encode cs = Inr data \<Longrightarrow> utf8_decode data = Inr cs"
proof -
  assume a: "utf8_encode cs = Inr data"
  then obtain bs where "encode_code_points cs = Some bs"
    by (auto simp: utf8_encode_def split: option.splits)
  from utf8_roundtrip [OF encode_code_points_scalar [OF this]] a show ?thesis
    by auto
qed

lemma pack_locals_succeeds:
  assumes "finite dirnames" and "\<forall>d \<in> dirnames. \<forall>c \<in> set d. is_scalar c"
  shows "\<exists>packed. pack_locals dirnames = Inr packed"
proof -
  let ?xs = "sorted_list_of_set dirnames"
  have "is_scalar c" if "c \<in> set (str_join 0 ?xs)" for c
  proof -
    from that set_str_join [of 0 ?xs] have "c = 0 \<or> (\<exists>d \<in> set ?xs. c \<in> set d)"
      by auto
    with assms show ?thesis
      by (auto simp: is_scalar_def)
  qed
  then have "\<forall>c \<in> set (str_join 0 ?xs). is_scalar c"
    by blast
  from utf8_roundtrip [OF this] show ?thesis
    by (auto simp: pack_locals_def Let_def)
qed

text \<open>
  The round trip: a set that is not empty, of directories without a NUL, that packs (every
  code point is encodable) into less than \<open>2 ^ 31\<close> bytes, unpacks to itself.
\<close>

lemma unpack_pack_locals:
  assumes "finite dirnames" and "dirnames \<noteq> {}"
    and "\<forall>d \<in> dirnames. 0 \<notin> set d"
    and "pack_locals dirnames = Inr packed" and "length packed < 2147483648"
  shows "unpack_locals packed = Inr dirnames"
proof -
  let ?xs = "sorted_list_of_set dirnames"
  let ?text = "str_join 0 ?xs"
  from assms(4) obtain data where enc: "utf8_encode ?text = Inr data"
    and packed: "packed = int32_tobytes (of_nat (4 + length data)) @ data"
    by (auto simp: pack_locals_def Let_def split: sum.splits)
  have dec: "utf8_decode data = Inr ?text"
    using enc by (rule utf8_encode_decode)
  have small: "4 + length data < 2147483648"
    using assms(5) packed by simp
  have hdr: "int32_frombuffer (take 4 packed) = Inr (of_nat (4 + length data))"
    unfolding packed by (simp add: int32_roundtrip)
  have sl: "py_slice packed 4 (sint (of_nat (4 + length data) :: 32 word)) = data"
    unfolding packed sint_of_nat_small [OF small] by (rule py_slice_header) simp
  have xs: "?xs \<noteq> []" "set ?xs = dirnames"
    using assms(1,2) by simp_all
  have "str_split 0 ?text = ?xs"
    using xs assms(3) by (intro str_split_join) simp_all
  then show ?thesis
    unfolding unpack_locals_def hdr sum.case sl dec by (simp add: xs)
qed

lemma sorted_ex: "sorted_list_of_set {[47, 97], [47, 98 :: nat]} = [ [47, 97], [47, 98]]"
  by simp

lemma pack_ex:
  "pack_locals {[47, 97], [47, 98]} = Inr [9, 0, 0, 0, 47, 97, 0, 47, 98]"
  by (simp add: pack_locals_def sorted_ex utf8_encode_def encode_code_point_def int32_tobytes_def)

text \<open>
  Claim C1, as the code has it. A set of one or more directories, none with a NUL, all made
  of code points that UTF-8 can encode (no surrogate), packs: the record starts with its
  own length in four bytes. When that length is below \<open>2 ^ 31\<close>, what \<open>int32\<close> holds,
  unpacking the record gives the set back.
\<close>

theorem pack_unpack_round_trip:
  assumes "finite dirnames" and "dirnames \<noteq> {}"
    and "\<forall>d \<in> dirnames. 0 \<notin> set d \<and> (\<forall>c \<in> set d. is_scalar c)"
  shows "\<exists>packed. pack_locals dirnames = Inr packed \<and>
           int32_frombuffer (take 4 packed) = Inr (of_nat (length packed)) \<and>
           (length packed < 2 ^ 31 \<longrightarrow> unpack_locals packed = Inr dirnames)"
proof -
  from assms(3) have sc: "\<forall>d \<in> dirnames. \<forall>c \<in> set d. is_scalar c"
    and nul: "\<forall>d \<in> dirnames. 0 \<notin> set d"
    by blast+
  from pack_locals_succeeds [OF assms(1) sc] obtain packed where
    p: "pack_locals dirnames = Inr packed"
    by blast
  then obtain data where "packed = int32_tobytes (of_nat (4 + length data)) @ data"
    by (auto simp: pack_locals_def Let_def split: sum.splits)
  then have hdr: "int32_frombuffer (take 4 packed) = Inr (of_nat (length packed))"
    by (simp add: int32_roundtrip)
  have "length packed < 2 ^ 31 \<longrightarrow> unpack_locals packed = Inr dirnames"
    using unpack_pack_locals [OF assms(1,2) nul p] by simp
  with p hdr show ?thesis by blast
qed

theorem pack_unpack_round_trip_witness:
  "pack_locals {[47, 97], [47, 98]} = Inr [9, 0, 0, 0, 47, 97, 0, 47, 98]
   \<and> unpack_locals [9, 0, 0, 0, 47, 97, 0, 47, 98] = Inr {[47, 97], [47, 98]}"
proof -
  have "\<exists>packed. pack_locals {[47, 97], [47, 98]} = Inr packed \<and>
           int32_frombuffer (take 4 packed) = Inr (of_nat (length packed)) \<and>
           (length packed < 2 ^ 31 \<longrightarrow> unpack_locals packed = Inr {[47, 97], [47, 98]})"
    by (rule pack_unpack_round_trip) (simp_all add: is_scalar_def)
  then show ?thesis
    by (simp add: pack_ex)
qed

text \<open>
  Claim C1, as stated, is for every set of 0 or more directories without a NUL. Two sets
  do not come back. A directory name may hold a lone surrogate (Python decodes
  undecodable path bytes to such code points); it has no NUL, and packing the set raises
  \<open>UnicodeEncodeError\<close>. The set of no directories packs to the bare length prefix;
  unpacking that splits the empty text into one empty string, so the result is the set of
  the empty string and not the empty set.
\<close>

theorem pack_unpack_not_every_set:
  "0 \<notin> set [56448 :: nat] \<and> pack_locals {[56448]} = Inl UnicodeEncodeError
   \<and> pack_locals {} = Inr [4, 0, 0, 0] \<and> unpack_locals [4, 0, 0, 0] = Inr {[]}
   \<and> {[]} \<noteq> ({} :: pystr set)"
  by (simp add: pack_locals_def utf8_encode_def encode_code_point_def int32_tobytes_def
        unpack_locals_def int32_frombuffer_def py_slice_def utf8_decode_def)

section \<open>Properties of dual_row.py\<close>

lemma flush_encode_shape:
  "\<exists>data_name meta_name obj.
     flush_encode h w =
       (data_name, meta_name, w\<lparr>shards := shards w @ [obj], trace := trace w @ [Encoded]\<rparr>)"
  by (auto simp: flush_encode_def Let_def split: prod.splits)

text \<open>A call of \<open>flush_shard\<close> that nothing interrupts is the four steps of the main thread.\<close>

lemma flush_shard_steps:
  "\<not> event w \<Longrightarrow>
   run h [Main_thread, Main_thread, Main_thread, Main_thread] (Outside, w) =
     (Outside, flush_shard h w)"
  by (simp add: run_def flush_shard_def flush_encode_def Let_def split: prod.splits)

lemma flush_shard_event: "event w \<Longrightarrow> flush_shard h w = cancel_future_jobs w"
  by (simp add: flush_shard_def)

lemma ex_failed_writer_eq:
  "ex_failed_writer =
     \<lparr>event = True,
      shards = [\<lparr>obj_samples = 1,
                 obj_raw_data = \<lparr>basename = ''shard.00000.json'', nbytes = 2\<rparr>,
                 obj_zip_data = None,
                 obj_raw_meta = \<lparr>basename = ''shard.00000.json.meta'', nbytes = 1\<rparr>,
                 obj_zip_meta = None, obj_config = []\<rparr>],
      new_samples = [ [1, 2]], pending = [''shard.00000.json.meta''], running = [],
      trace = [Encoded, Submitted ''shard.00000.json'', Submitted ''shard.00000.json.meta'',
               Started ''shard.00000.json'', Failed ''shard.00000.json'']\<rparr>"
  by (simp add: ex_failed_writer_def run_def flush_encode_def ex_row_writer_def ex_writer_def
        submit_def or_else_def start_def finish_def Let_def)

text \<open>After a call of \<open>flush_shard\<close> that found the flag set, nothing moves.\<close>

lemma step_cancelled:
  assumes "event w" and "pending w = []"
  shows "\<exists>w'. step h a (Outside, w) = (Outside, w') \<and> event w' \<and> pending w' = [] \<and>
           shards w' = shards w \<and>
           filter is_new_work (trace w') = filter is_new_work (trace w)"
proof (cases a)
  case Main_thread
  with assms show ?thesis by (simp add: cancel_future_jobs_def)
next
  case Start
  with assms show ?thesis by (simp add: start_def)
next
  case (Finish name ok)
  with assms show ?thesis by (simp add: finish_def)
qed

lemma run_cancelled:
  "event w \<Longrightarrow> pending w = [] \<Longrightarrow>
   \<exists>w'. run h actions (Outside, w) = (Outside, w') \<and> event w' \<and> pending w' = [] \<and>
        shards w' = shards w \<and>
        filter is_new_work (trace w') = filter is_new_work (trace w)"
proof (induction actions arbitrary: w)
  case Nil
  then show ?case by (simp add: run_def)
next
  case (Cons a actions)
  from step_cancelled [OF Cons.prems, of h a] obtain w1 where
    1: "step h a (Outside, w) = (Outside, w1)" "event w1" "pending w1 = []"
       "shards w1 = shards w"
       "filter is_new_work (trace w1) = filter is_new_work (trace w)"
    by blast
  from Cons.IH [OF 1(2,3)] obtain w' where
    2: "run h actions (Outside, w1) = (Outside, w')" "event w'" "pending w' = []"
       "shards w' = shards w1"
       "filter is_new_work (trace w') = filter is_new_work (trace w1)"
    by blast
  have "run h (a # actions) (Outside, w) = run h actions (Outside, w1)"
    using 1(1) by (simp add: run_def)
  with 1 2 show ?case by simp
qed

text \<open>With the flag set, the main thread finishes at most the call in progress.\<close>

lemma step_budget:
  assumes "event w"
  shows "\<exists>pc' w'. step h a (pc, w) = (pc', w') \<and> event w' \<and>
           length (shards w') + encodings_left pc' \<le> length (shards w) + encodings_left pc \<and>
           encodings (trace w') + encodings_left pc' \<le> encodings (trace w) + encodings_left pc \<and>
           submissions (trace w') + submits_left pc' \<le> submissions (trace w) + submits_left pc \<and>
           starts (trace w') + length (pending w') + submits_left pc' \<le>
             starts (trace w) + length (pending w) + submits_left pc"
proof (cases a)
  case Main_thread
  show ?thesis
  proof (cases pc)
    case Outside
    with Main_thread assms show ?thesis
      by (simp add: cancel_future_jobs_def encodings_def submissions_def starts_def)
  next
    case Checked
    from flush_encode_shape [of h w] obtain data_name meta_name obj where
      "flush_encode h w =
         (data_name, meta_name, w\<lparr>shards := shards w @ [obj], trace := trace w @ [Encoded]\<rparr>)"
      by blast
    with Checked Main_thread assms show ?thesis
      by (simp add: encodings_def submissions_def starts_def)
  next
    case (Appended data_name meta_name)
    with Main_thread assms show ?thesis
      by (simp add: submit_def encodings_def submissions_def starts_def)
  next
    case (Data_submitted meta_name)
    with Main_thread assms show ?thesis
      by (simp add: submit_def encodings_def submissions_def starts_def)
  qed
next
  case Start
  with assms show ?thesis
    by (cases "pending w") (simp_all add: start_def encodings_def submissions_def starts_def)
next
  case (Finish name ok)
  with assms show ?thesis by (simp add: finish_def encodings_def submissions_def starts_def)
qed

lemma run_budget:
  "event w \<Longrightarrow>
   length (shards (snd (run h actions (pc, w)))) \<le> length (shards w) + encodings_left pc \<and>
   encodings (trace (snd (run h actions (pc, w)))) \<le> encodings (trace w) + encodings_left pc \<and>
   submissions (trace (snd (run h actions (pc, w)))) \<le> submissions (trace w) + submits_left pc \<and>
   starts (trace (snd (run h actions (pc, w)))) \<le>
     starts (trace w) + length (pending w) + submits_left pc"
proof (induction actions arbitrary: pc w)
  case Nil
  then show ?case by (simp add: run_def)
next
  case (Cons a actions)
  from step_budget [OF Cons.prems, of h a pc] obtain pc1 w1 where
    1: "step h a (pc, w) = (pc1, w1)" "event w1"
       "length (shards w1) + encodings_left pc1 \<le> length (shards w) + encodings_left pc"
       "encodings (trace w1) + encodings_left pc1 \<le> encodings (trace w) + encodings_left pc"
       "submissions (trace w1) + submits_left pc1 \<le> submissions (trace w) + submits_left pc"
       "starts (trace w1) + length (pending w1) + submits_left pc1 \<le>
          starts (trace w) + length (pending w) + submits_left pc"
    by blast
  have r: "run h (a # actions) (pc, w) = run h actions (pc1, w1)"
    using 1(1) by (simp add: run_def)
  from Cons.IH [OF 1(2), of pc1] 1(3,4,5,6) show ?case
    unfolding r by linarith
qed

text \<open>
  Claim C9, as the code has it. A call of \<open>flush_shard\<close> that begins when the
  cancellation flag is set cancels the uploads not yet started and returns: no shard is
  encoded, no descriptor is appended, no upload is submitted. From that call on, in
  every interleaving of the main thread with the uploads, the main thread stays outside
  the body of \<open>flush_shard\<close>, the shard list and the empty queue stay as they are, and
  nothing is encoded, submitted or started. A call that read the flag before the failure
  goes on: with the flag set and the main thread anywhere in \<open>flush_shard\<close>, every
  interleaving encodes at most the one shard of the call in progress and submits at most
  its two uploads, and the uploads that start are at most those queued and those two.
\<close>

theorem flush_shard_after_failure:
  assumes "event w"
  shows "flush_shard h w = cancel_future_jobs w
       \<and> shards (flush_shard h w) = shards w
       \<and> pending (flush_shard h w) = []
       \<and> trace (flush_shard h w) = trace w @ map Cancelled (pending w)
       \<and> step h Main_thread (Outside, w) = (Outside, flush_shard h w)
       \<and> fst (run h actions (Outside, flush_shard h w)) = Outside
       \<and> shards (snd (run h actions (Outside, flush_shard h w))) = shards w
       \<and> pending (snd (run h actions (Outside, flush_shard h w))) = []
       \<and> filter is_new_work (trace (snd (run h actions (Outside, flush_shard h w)))) =
           filter is_new_work (trace w)
       \<and> length (shards (snd (run h actions (pc, w)))) \<le> length (shards w) + encodings_left pc
       \<and> encodings (trace (snd (run h actions (pc, w)))) \<le>
           encodings (trace w) + encodings_left pc
       \<and> submissions (trace (snd (run h actions (pc, w)))) \<le>
           submissions (trace w) + submits_left pc
       \<and> starts (trace (snd (run h actions (pc, w)))) \<le>
           starts (trace w) + length (pending w) + submits_left pc"
proof -
  have f: "flush_shard h w = cancel_future_jobs w"
    using assms by (rule flush_shard_event)
  have c: "event (cancel_future_jobs w)" "pending (cancel_future_jobs w) = []"
      "shards (cancel_future_jobs w) = shards w"
      "trace (cancel_future_jobs w) = trace w @ map Cancelled (pending w)"
    using assms by (simp_all add: cancel_future_jobs_def)
  have n: "filter is_new_work (trace (cancel_future_jobs w)) = filter is_new_work (trace w)"
    by (simp add: c(4) filter_empty_conv)
  from run_cancelled [OF c(1,2), of h actions] obtain w' where
    r: "run h actions (Outside, cancel_future_jobs w) = (Outside, w')" "pending w' = []"
       "shards w' = shards (cancel_future_jobs w)"
       "filter is_new_work (trace w') = filter is_new_work (trace (cancel_future_jobs w))"
    by blast
  have s: "step h Main_thread (Outside, w) = (Outside, cancel_future_jobs w)"
    using assms by simp
  from run_budget [OF assms, of h actions pc] f c n r s show ?thesis
    by simp
qed

theorem flush_shard_after_failure_witness:
  "event ex_failed_writer
   \<and> flush_shard ex_row_writer ex_failed_writer = cancel_future_jobs ex_failed_writer
   \<and> trace (flush_shard ex_row_writer ex_failed_writer) =
       [Encoded, Submitted ''shard.00000.json'', Submitted ''shard.00000.json.meta'',
        Started ''shard.00000.json'', Failed ''shard.00000.json'',
        Cancelled ''shard.00000.json.meta'']
   \<and> filter is_new_work
       (trace (snd (run ex_row_writer [Start, Main_thread, Start]
                      (Outside, flush_shard ex_row_writer ex_failed_writer)))) =
       [Encoded, Submitted ''shard.00000.json'', Submitted ''shard.00000.json.meta'',
        Started ''shard.00000.json'']
   \<and> trace (snd (run ex_row_writer
                    [Main_thread, Main_thread, Main_thread, Start, Start, Main_thread]
                    (Checked, ex_failed_writer))) =
       [Encoded, Submitted ''shard.00000.json'', Submitted ''shard.00000.json.meta'',
        Started ''shard.00000.json'', Failed ''shard.00000.json'',
        Encoded, Submitted ''shard.00001.json'', Submitted ''shard.00001.json.meta'',
        Started ''shard.00000.json.meta'', Started ''shard.00001.json'',
        Cancelled ''shard.00001.json.meta'']
   \<and> encodings (trace (snd (run ex_row_writer
                    [Main_thread, Main_thread, Main_thread, Start, Start, Main_thread]
                    (Checked, ex_failed_writer)))) \<le> 2
   \<and> submissions (trace (snd (run ex_row_writer
                    [Main_thread, Main_thread, Main_thread, Start, Start, Main_thread]
                    (Checked, ex_failed_writer)))) \<le> 4
   \<and> starts (trace (snd (run ex_row_writer
                    [Main_thread, Main_thread, Main_thread, Start, Start, Main_thread]
                    (Checked, ex_failed_writer)))) \<le> 4"
proof -
  have e: "event ex_failed_writer"
    by (simp add: ex_failed_writer_eq)
  have t: "trace ex_failed_writer =
      [Encoded, Submitted ''shard.00000.json'', Submitted ''shard.00000.json.meta'',
       Started ''shard.00000.json'', Failed ''shard.00000.json'']"
    "pending ex_failed_writer = [''shard.00000.json.meta'']"
    by (simp_all add: ex_failed_writer_eq)
  have n: "encodings (trace ex_failed_writer) + encodings_left Checked = 2"
    "submissions (trace ex_failed_writer) + submits_left Checked = 4"
    "starts (trace ex_failed_writer) + length (pending ex_failed_writer) +
       submits_left Checked = 4"
    by (simp_all add: t encodings_def submissions_def starts_def)
  have r: "trace (snd (run ex_row_writer
                    [Main_thread, Main_thread, Main_thread, Start, Start, Main_thread]
                    (Checked, ex_failed_writer))) =
       [Encoded, Submitted ''shard.00000.json'', Submitted ''shard.00000.json.meta'',
        Started ''shard.00000.json'', Failed ''shard.00000.json'',
        Encoded, Submitted ''shard.00001.json'', Submitted ''shard.00001.json.meta'',
        Started ''shard.00000.json.meta'', Started ''shard.00001.json'',
        Cancelled ''shard.00001.json.meta'']"
    by (simp add: ex_failed_writer_eq run_def flush_encode_def ex_row_writer_def
          submit_def or_else_def start_def cancel_future_jobs_def Let_def)
  note a = flush_shard_after_failure [OF e, of ex_row_writer "[Start, Main_thread, Start]" Checked]
  note b = flush_shard_after_failure [OF e, of ex_row_writer
      "[Main_thread, Main_thread, Main_thread, Start, Start, Main_thread]" Checked]
  from a have 1: "flush_shard ex_row_writer ex_failed_writer = cancel_future_jobs ex_failed_writer"
    by blast
  from a have "trace (flush_shard ex_row_writer ex_failed_writer) =
      trace ex_failed_writer @ map Cancelled (pending ex_failed_writer)"
    by blast
  then have 2: "trace (flush_shard ex_row_writer ex_failed_writer) =
       [Encoded, Submitted ''shard.00000.json'', Submitted ''shard.00000.json.meta'',
        Started ''shard.00000.json'', Failed ''shard.00000.json'',
        Cancelled ''shard.00000.json.meta'']"
    by (simp add: t)
  from a have "filter is_new_work
       (trace (snd (run ex_row_writer [Start, Main_thread, Start]
                      (Outside, flush_shard ex_row_writer ex_failed_writer)))) =
       filter is_new_work (trace ex_failed_writer)"
    by blast
  then have 3: "filter is_new_work
       (trace (snd (run ex_row_writer [Start, Main_thread, Start]
                      (Outside, flush_shard ex_row_writer ex_failed_writer)))) =
       [Encoded, Submitted ''shard.00000.json'', Submitted ''shard.00000.json.meta'',
        Started ''shard.00000.json'']"
    by (simp add: t)
  from b have "encodings (trace (snd (run ex_row_writer
                    [Main_thread, Main_thread, Main_thread, Start, Start, Main_thread]
                    (Checked, ex_failed_writer)))) \<le>
               encodings (trace ex_failed_writer) + encodings_left Checked"
    and "submissions (trace (snd (run ex_row_writer
                    [Main_thread, Main_thread, Main_thread, Start, Start, Main_thread]
                    (Checked, ex_failed_writer)))) \<le>
               submissions (trace ex_failed_writer) + submits_left Checked"
    and "starts (trace (snd (run ex_row_writer
                    [Main_thread, Main_thread, Main_thread, Start, Start, Main_thread]
                    (Checked, ex_failed_writer)))) \<le>
               starts (trace ex_failed_writer) + length (pending ex_failed_writer) +
                 submits_left Checked"
    by blast+
  then have 4: "encodings (trace (snd (run ex_row_writer
                    [Main_thread, Main_thread, Main_thread, Start, Start, Main_thread]
                    (Checked, ex_failed_writer)))) \<le> 2"
    "submissions (trace (snd (run ex_row_writer
                    [Main_thread, Main_thread, Main_thread, Start, Start, Main_thread]
                    (Checked, ex_failed_writer)))) \<le> 4"
    "starts (trace (snd (run ex_row_writer
                    [Main_thread, Main_thread, Main_thread, Start, Start, Main_thread]
                    (Checked, ex_failed_writer)))) \<le> 4"
    unfolding n by simp_all
  from e 1 2 3 r 4 show ?thesis
    by blast
qed

text \<open>
  Claim C9, as stated, has no upload of a shard dispatched after an upload of a prior
  shard has failed. The flag is read at line 77 only. In this run the data upload of
  shard 0 fails when the call for shard 1 has read the flag: shard 1 is encoded and both
  of its uploads are submitted, then the meta upload of shard 0 and the data upload of
  shard 1 start, all after the failure; the next call of \<open>flush_shard\<close> cancels the one
  upload that has not started.
\<close>

theorem uploads_dispatched_after_failure:
  "trace (snd (run ex_row_writer
                 [Main_thread, Main_thread, Main_thread, Main_thread, Start, Main_thread,
                  Finish ''shard.00000.json'' False,
                  Main_thread, Main_thread, Main_thread, Start, Start, Main_thread]
                 (Outside, ex_writer))) =
     [Encoded, Submitted ''shard.00000.json'', Submitted ''shard.00000.json.meta'',
      Started ''shard.00000.json'', Failed ''shard.00000.json'',
      Encoded, Submitted ''shard.00001.json'', Submitted ''shard.00001.json.meta'',
      Started ''shard.00000.json.meta'', Started ''shard.00001.json'',
      Cancelled ''shard.00001.json.meta'']
   \<and> \<not> quiet_after_failure
       [Encoded, Submitted ''shard.00000.json'', Submitted ''shard.00000.json.meta'',
        Started ''shard.00000.json'', Failed ''shard.00000.json'',
        Encoded, Submitted ''shard.00001.json'', Submitted ''shard.00001.json.meta'',
        Started ''shard.00000.json.meta'', Started ''shard.00001.json'',
        Cancelled ''shard.00001.json.meta'']"
  by (simp add: run_def flush_encode_def ex_row_writer_def ex_writer_def
        submit_def or_else_def start_def finish_def cancel_future_jobs_def Let_def)


end
